theory Spec2Isabelle
  imports Main "HOL-Library.Multiset"
begin

section \<open>Data model of package streamv3\<close>

text \<open>
  Elements, keys and values are Go \<^verbatim>\<open>interface{}\<close> values: one type \<open>'a\<close> stands for all
  of them.  A user-supplied operation may panic; the panic value has type \<open>'e\<close>, and an
  operation is a function into \<open>'e + result\<close> (\<open>Inl\<close> is the panic).
\<close>

type_synonym addr = nat

text \<open>\<^verbatim>\<open>reflect.Type\<close>, as far as the checks of the package inspect it.\<close>

datatype rtype =
    TBool
  | TSlice rtype
  | TMap rtype rtype
  | TPtr rtype
  | TFunc "rtype list" "rtype list"
  | TNamed string

datatype rkind = KBool | KSlice | KMap | KPtr | KFunc | KOther

fun Kind :: "rtype \<Rightarrow> rkind" where
  "Kind TBool = KBool"
| "Kind (TSlice _) = KSlice"
| "Kind (TMap _ _) = KMap"
| "Kind (TPtr _) = KPtr"
| "Kind (TFunc _ _) = KFunc"
| "Kind (TNamed _) = KOther"

text \<open>
  An argument passed as \<^verbatim>\<open>interface{}\<close>: nil, or a value with its dynamic type.  For an
  operation the value is the function that is called; for a result argument it is the
  content of the caller's variable.
\<close>

datatype 'v goarg = NilArg | Arg rtype 'v

text \<open>Panics.  The construction-time ones are the \<^verbatim>\<open>panic(fmt.Errorf(...))\<close> calls.\<close>

datatype config_error =
    NotAFunction
  | WrongArgCount
  | ArgTypeMismatch
  | WrongOutputCount
  | WrongReturnType
  | NonPositiveRows
  | NilKeyer
  | BadResultArg
  | NotASliceOrMap

datatype runtime_error =
    IndexOutOfRange
  | SliceBoundsOutOfRange
  | NilDereference
  | IntegerDivideByZero
  | NegativeWaitGroupCounter
  | ReflectPanic

text \<open>
  \<open>WorkerPanic es\<close>: the workers of one stage recovered the panics \<open>es\<close> (listed by
  ascending worker index); each of them assigned the shared variable \<^verbatim>\<open>panicError\<close>,
  and the stage re-panics with the content of that variable after \<^verbatim>\<open>wg.Wait()\<close>.
  Which of the assignments is the last one is decided by the scheduler, so the model
  keeps them all.  \<open>OpPanic e\<close>: a user operation panicked on the calling goroutine
  (sort comparator, accumulator, foreach operation), where nothing recovers it.
\<close>

datatype 'e error =
    ConfigError config_error
  | WorkerPanic "'e list"
  | OpPanic 'e
  | RuntimePanic runtime_error
  | ConcurrentMapWrites

text \<open>
  \<open>ConcurrentMapWrites\<close> is not a panic: the runtime stops the process with
  \<^verbatim>\<open>fatal error: concurrent map writes\<close>, and no \<^verbatim>\<open>recover\<close> sees it.
\<close>

datatype 'a DataGetter = sliceGetter "'a list" | mapGetter addr

record ('a, 'e) SliceStreamer =
  lastStreamer :: "addr option"
  dataGetter :: "'a DataGetter option"
  parallel :: int
  filterFunc :: "('a \<Rightarrow> 'e + bool) list option"
  mapFunc :: "('a \<Rightarrow> 'e + 'a) option"
  flatMapFunc :: "('a \<Rightarrow> 'e + 'a list) option"
  sortFunc :: "('a \<Rightarrow> 'a \<Rightarrow> 'e + bool) option"
  offset :: int
  limit :: int
  curType :: rtype

record ('a, 'e) MapStreamer =
  mLastStreamer :: "addr option"
  mParallel :: int
  mFilterFunc :: "('a \<Rightarrow> 'a \<Rightarrow> 'e + bool) list option"
  mMapFunc :: "('a \<Rightarrow> 'a \<Rightarrow> 'e + 'a) option"
  mFlatMapFunc :: "('a \<Rightarrow> 'a \<Rightarrow> 'e + 'a list) option"
  pairData :: "('a \<times> 'a) list"
  curKeyType :: rtype
  curValueType :: rtype

text \<open>
  The heap: the allocated \<^verbatim>\<open>SliceStreamer\<close> and \<^verbatim>\<open>MapStreamer\<close> nodes.  A pointer is an
  index into the list of its type; \<^verbatim>\<open>&SliceStreamer{...}\<close> appends a node.
\<close>

record ('a, 'e) heap =
  slices :: "('a, 'e) SliceStreamer list"
  maps :: "('a, 'e) MapStreamer list"

text \<open>
  \<^verbatim>\<open>sort.Slice\<close> is library code: the evaluator takes it as a parameter.  It receives the
  comparator and the data and returns the reordered data, or the panic of the comparator.
\<close>

type_synonym ('a, 'e) sorter = "('a \<Rightarrow> 'a \<Rightarrow> 'e + bool) \<Rightarrow> 'a list \<Rightarrow> 'e + 'a list"

section \<open>The fork-join block\<close>

text \<open>
  Every parallel method repeats the same block: \<^verbatim>\<open>wg.Add(parallel)\<close>,
  \<^verbatim>\<open>batch := len(data) / parallel\<close>, worker \<open>i\<close> gets \<^verbatim>\<open>data[start:end]\<close> with
  \<^verbatim>\<open>start = i * batch\<close>, \<^verbatim>\<open>end = start + batch\<close> and, for the last worker,
  \<^verbatim>\<open>end = len(data)\<close> when \<^verbatim>\<open>end < len(data)\<close>.
\<close>

definition batchBounds :: "nat \<Rightarrow> nat \<Rightarrow> nat \<Rightarrow> nat \<times> nat" where
  "batchBounds k n i =
     (let batch = n div k; start = i * batch; stop = start + batch
      in (start, if i = k - 1 \<and> stop < n then n else stop))"

definition batches :: "int \<Rightarrow> 'a list \<Rightarrow> 'a list list" where
  "batches k data =
     map (\<lambda>i. case batchBounds (nat k) (length data) i of
                 (start, stop) \<Rightarrow> take (stop - start) (drop start data))
         [0..<nat k]"

text \<open>After \<^verbatim>\<open>wg.Wait()\<close>: re-panic when a worker recorded a panic, else the slots.\<close>

definition joinWorkers :: "('e + 'r) list \<Rightarrow> 'e error + 'r list" where
  "joinWorkers rs =
     (if filter isl rs \<noteq> [] then Inl (WorkerPanic (map projl (filter isl rs)))
      else Inr (map projr rs))"

definition forkJoin :: "int \<Rightarrow> ('a list \<Rightarrow> 'e + 'r) \<Rightarrow> 'a list \<Rightarrow> 'e error + 'r list" where
  "forkJoin k worker data =
     (if k < 0 then Inl (RuntimePanic NegativeWaitGroupCounter)
      else if k = 0 then Inl (RuntimePanic IntegerDivideByZero)
      else joinWorkers (map worker (batches k data)))"

definition concatSlots :: "'e error + 'r list list \<Rightarrow> 'e error + 'r list" where
  "concatSlots r = (case r of Inl e \<Rightarrow> Inl e | Inr slots \<Rightarrow> Inr (concat slots))"

text \<open>
  The elementwise stages collect the results of the workers in a slice,
  \<^verbatim>\<open>results[goroutineID] = res\<close>: every worker writes an element of its own.  \<^verbatim>\<open>groupBy\<close>
  and \<^verbatim>\<open>toMap\<close> collect them in a Go map, \<^verbatim>\<open>resultCollection[goroutineID] = curGoroutineMap\<close>,
  which every worker assigns as its first statement, with no lock.  A Go map admits one
  writer at a time.  Whether two of these assignments meet is decided by the scheduler,
  which is a parameter of the model: \<open>WritesInTurn\<close>, the assignments run one after the
  other; \<open>WritesCollide\<close>, the runtime finds one assignment running during another and
  stops the process.  A single worker has nothing to collide with.  (For assignments
  that meet without the runtime noticing, Go defines no result; the model has no
  schedule for them.)
\<close>

datatype schedule = WritesInTurn | WritesCollide

definition forkJoinShared ::
  "schedule \<Rightarrow> int \<Rightarrow> ('a list \<Rightarrow> 'e + 'r) \<Rightarrow> 'a list \<Rightarrow> 'e error + 'r list" where
  "forkJoinShared sched k worker data =
     (if k < 0 then Inl (RuntimePanic NegativeWaitGroupCounter)
      else if k = 0 then Inl (RuntimePanic IntegerDivideByZero)
      else if sched = WritesCollide \<and> 2 \<le> k then Inl ConcurrentMapWrites
      else joinWorkers (map worker (batches k data)))"

section \<open>SliceStreamer: the elementwise stages\<close>

text \<open>The inner loop over \<^verbatim>\<open>filterFunc\<close>, with its \<^verbatim>\<open>break\<close> on the first false.\<close>

fun isFilter :: "('a \<Rightarrow> 'e + bool) list \<Rightarrow> 'a \<Rightarrow> 'e + bool" where
  "isFilter [] x = Inr True"
| "isFilter (f # fs) x =
     (case f x of Inl e \<Rightarrow> Inl e | Inr b \<Rightarrow> if b then isFilter fs x else Inr False)"

fun filterWorker :: "('a \<Rightarrow> 'e + bool) list \<Rightarrow> 'a list \<Rightarrow> 'e + 'a list" where
  "filterWorker fs [] = Inr []"
| "filterWorker fs (x # xs) =
     (case isFilter fs x of
        Inl e \<Rightarrow> Inl e
      | Inr b \<Rightarrow>
          (case filterWorker fs xs of
             Inl e \<Rightarrow> Inl e
           | Inr res \<Rightarrow> Inr (if b then x # res else res)))"

fun mapWorker :: "('a \<Rightarrow> 'e + 'b) \<Rightarrow> 'a list \<Rightarrow> 'e + 'b list" where
  "mapWorker f [] = Inr []"
| "mapWorker f (x # xs) =
     (case f x of
        Inl e \<Rightarrow> Inl e
      | Inr y \<Rightarrow> (case mapWorker f xs of Inl e \<Rightarrow> Inl e | Inr res \<Rightarrow> Inr (y # res)))"

fun flatMapWorker :: "('a \<Rightarrow> 'e + 'b list) \<Rightarrow> 'a list \<Rightarrow> 'e + 'b list" where
  "flatMapWorker f [] = Inr []"
| "flatMapWorker f (x # xs) =
     (case f x of
        Inl e \<Rightarrow> Inl e
      | Inr ys \<Rightarrow> (case flatMapWorker f xs of Inl e \<Rightarrow> Inl e | Inr res \<Rightarrow> Inr (ys @ res)))"

definition SliceStreamer_filter ::
  "('a, 'e) SliceStreamer \<Rightarrow> 'a list \<Rightarrow> 'e error + 'a list" where
  "SliceStreamer_filter streamer data =
     (case filterFunc streamer of
        None \<Rightarrow> Inr data
      | Some fs \<Rightarrow>
          if fs = [] then Inr data
          else concatSlots (forkJoin (parallel streamer) (filterWorker fs) data))"

definition SliceStreamer_map ::
  "('a, 'e) SliceStreamer \<Rightarrow> 'a list \<Rightarrow> 'e error + 'a list" where
  "SliceStreamer_map streamer data =
     (case mapFunc streamer of
        None \<Rightarrow> Inr data
      | Some f \<Rightarrow> concatSlots (forkJoin (parallel streamer) (mapWorker f) data))"


section \<open>Walking the chain\<close>

text \<open>
  \<^verbatim>\<open>for ; lastStreamer != nil; lastStreamer = lastStreamer.lastStreamer\<close> appends the
  nodes from the receiver back to the root.  \<open>parent\<close> reads the \<^verbatim>\<open>lastStreamer\<close> field.
  On a cyclic chain the loop does not end: the result is \<open>None\<close> (also for a pointer
  that is not an allocated node, which Go cannot hold).
\<close>

partial_function (option) streamerList ::
  "('n \<Rightarrow> addr option) \<Rightarrow> 'n list \<Rightarrow> addr option \<Rightarrow> 'n list option" where
  "streamerList parent h p =
     (case p of
        None \<Rightarrow> Some []
      | Some a \<Rightarrow>
          if a < length h
          then Option.bind (streamerList parent h (parent (h ! a))) (\<lambda>rest. Some (h ! a # rest))
          else None)"

section \<open>MapStreamer: evaluation\<close>

definition MapStreamer_filter ::
  "('a, 'e) MapStreamer \<Rightarrow> ('a \<times> 'a) list \<Rightarrow> 'e error + ('a \<times> 'a) list" where
  "MapStreamer_filter streamer data =
     (case mFilterFunc streamer of
        None \<Rightarrow> Inr data
      | Some fs \<Rightarrow>
          if fs = [] then Inr data
          else concatSlots
                 (forkJoin (mParallel streamer) (filterWorker (map case_prod fs)) data))"

definition MapStreamer_map ::
  "('a, 'e) MapStreamer \<Rightarrow> ('a \<times> 'a) list \<Rightarrow> 'e error + 'a list" where
  "MapStreamer_map streamer data =
     (case mMapFunc streamer of
        None \<Rightarrow> Inr []
      | Some f \<Rightarrow> concatSlots (forkJoin (mParallel streamer) (mapWorker (case_prod f)) data))"

definition MapStreamer_flatMap ::
  "('a, 'e) MapStreamer \<Rightarrow> ('a \<times> 'a) list \<Rightarrow> 'e error + 'a list" where
  "MapStreamer_flatMap streamer data =
     (case mFlatMapFunc streamer of
        None \<Rightarrow> Inr []
      | Some f \<Rightarrow>
          concatSlots (forkJoin (mParallel streamer) (flatMapWorker (case_prod f)) data))"

text \<open>
  The loop of \<^verbatim>\<open>MapStreamer.scan\<close> over the stages in root-to-leaf order (the reversed
  \<^verbatim>\<open>streamerList\<close>): it returns at the first stage that has a flat-map or a map function.
\<close>

fun MapStreamer_scanLoop ::
  "('a, 'e) MapStreamer list \<Rightarrow> ('a \<times> 'a) list \<Rightarrow> 'e error + 'a list" where
  "MapStreamer_scanLoop [] newData = Inr []"
| "MapStreamer_scanLoop (s # rest) newData =
     (case (if mFilterFunc s \<noteq> None then MapStreamer_filter s newData else Inr newData) of
        Inl e \<Rightarrow> Inl e
      | Inr d \<Rightarrow>
          if mFlatMapFunc s \<noteq> None then MapStreamer_flatMap s d
          else if mMapFunc s \<noteq> None then MapStreamer_map s d
          else MapStreamer_scanLoop rest d)"

definition MapStreamer_scan ::
  "('a, 'e) MapStreamer list \<Rightarrow> addr \<Rightarrow> ('e error + 'a list) option" where
  "MapStreamer_scan mh streamer =
     (case streamerList mLastStreamer mh (Some streamer) of
        None \<Rightarrow> None
      | Some sl \<Rightarrow> Some (MapStreamer_scanLoop (rev sl) (pairData (last sl))))"

text \<open>The filter-only loop of \<^verbatim>\<open>KeysToStream\<close> and \<^verbatim>\<open>ValuesToStream\<close>.\<close>

fun MapStreamer_filterLoop ::
  "('a, 'e) MapStreamer list \<Rightarrow> ('a \<times> 'a) list \<Rightarrow> 'e error + ('a \<times> 'a) list" where
  "MapStreamer_filterLoop [] newData = Inr newData"
| "MapStreamer_filterLoop (s # rest) newData =
     (case (if mFilterFunc s \<noteq> None then MapStreamer_filter s newData else Inr newData) of
        Inl e \<Rightarrow> Inl e
      | Inr d \<Rightarrow> MapStreamer_filterLoop rest d)"

section \<open>SliceStreamer: evaluation\<close>

text \<open>\<^verbatim>\<open>DataGetter.getData\<close>, called through the interface field (nil: \<open>None\<close>).\<close>

definition getData ::
  "('a, 'e) heap \<Rightarrow> 'a DataGetter option \<Rightarrow> ('e error + 'a list) option" where
  "getData h g =
     (case g of
        None \<Rightarrow> Some (Inl (RuntimePanic NilDereference))
      | Some (sliceGetter d) \<Rightarrow> Some (Inr d)
      | Some (mapGetter m) \<Rightarrow> MapStreamer_scan (maps h) m)"

definition SliceStreamer_flatMap ::
  "('a, 'e) heap \<Rightarrow> ('a, 'e) SliceStreamer \<Rightarrow> 'a list \<Rightarrow> ('e error + 'a list) option" where
  "SliceStreamer_flatMap h streamer data =
     (case flatMapFunc streamer of
        None \<Rightarrow> getData h (dataGetter streamer)
      | Some f \<Rightarrow>
          Some (concatSlots (forkJoin (parallel streamer) (flatMapWorker f) data)))"

text \<open>One round of the loop of \<^verbatim>\<open>scan\<close>: filter, flat-map, map, sort, each when set.\<close>

definition sortStage ::
  "('a, 'e) sorter \<Rightarrow> ('a, 'e) SliceStreamer \<Rightarrow> 'a list \<Rightarrow> 'e error + 'a list" where
  "sortStage srt s newData =
     (case sortFunc s of
        None \<Rightarrow> Inr newData
      | Some cmp \<Rightarrow> (case srt cmp newData of Inl e \<Rightarrow> Inl (OpPanic e) | Inr d \<Rightarrow> Inr d))"

definition applyStage ::
  "('a, 'e) sorter \<Rightarrow> ('a, 'e) heap \<Rightarrow> ('a, 'e) SliceStreamer \<Rightarrow> 'a list
     \<Rightarrow> ('e error + 'a list) option" where
  "applyStage srt h s newData =
     (case (if filterFunc s \<noteq> None then SliceStreamer_filter s newData else Inr newData) of
        Inl e \<Rightarrow> Some (Inl e)
      | Inr d1 \<Rightarrow>
          (case (if flatMapFunc s \<noteq> None then SliceStreamer_flatMap h s d1 else Some (Inr d1)) of
             None \<Rightarrow> None
           | Some (Inl e) \<Rightarrow> Some (Inl e)
           | Some (Inr d2) \<Rightarrow>
               (case (if mapFunc s \<noteq> None then SliceStreamer_map s d2 else Inr d2) of
                  Inl e \<Rightarrow> Some (Inl e)
                | Inr d3 \<Rightarrow> Some (sortStage srt s d3))))"

fun stagesLoop ::
  "('a, 'e) sorter \<Rightarrow> ('a, 'e) heap \<Rightarrow> ('a, 'e) SliceStreamer list \<Rightarrow> 'a list
     \<Rightarrow> ('e error + 'a list) option" where
  "stagesLoop srt h [] newData = Some (Inr newData)"
| "stagesLoop srt h (s # rest) newData =
     (case applyStage srt h s newData of
        None \<Rightarrow> None
      | Some (Inl e) \<Rightarrow> Some (Inl e)
      | Some (Inr d) \<Rightarrow> stagesLoop srt h rest d)"

text \<open>
  The window \<^verbatim>\<open>newData[offset : offset+limit]\<close> at the end of \<^verbatim>\<open>scan\<close>, computed from
  the fields of the receiver.
\<close>

definition window :: "int \<Rightarrow> int \<Rightarrow> 'a list \<Rightarrow> 'e error + 'a list" where
  "window off lim newData =
     (let n = int (length newData);
          offset' = (if off < n then off else 0);
          limit0 = n - offset';
          limit' = (if lim > 0 \<and> lim < limit0 then lim else limit0)
      in if offset' < 0 then Inl (RuntimePanic SliceBoundsOutOfRange)
         else Inr (take (nat limit') (drop (nat offset') newData)))"

definition SliceStreamer_scan ::
  "('a, 'e) sorter \<Rightarrow> ('a, 'e) heap \<Rightarrow> addr \<Rightarrow> ('e error + 'a list) option" where
  "SliceStreamer_scan srt h streamer =
     (case streamerList lastStreamer (slices h) (Some streamer) of
        None \<Rightarrow> None
      | Some sl \<Rightarrow>
          (case getData h (dataGetter (last sl)) of
             None \<Rightarrow> None
           | Some (Inl e) \<Rightarrow> Some (Inl e)
           | Some (Inr data) \<Rightarrow>
               (case stagesLoop srt h (rev sl) data of
                  None \<Rightarrow> None
                | Some (Inl e) \<Rightarrow> Some (Inl e)
                | Some (Inr newData) \<Rightarrow>
                    Some (window (offset (hd sl)) (limit (hd sl)) newData))))"


section \<open>Checks on arguments passed as interface values\<close>

text \<open>
  The check shared by the one-argument operations (filter, mapper, flat-mapper, keyer):
  a function, one parameter of the upstream type, one result.  It gives the result type
  \<^verbatim>\<open>ft.Out(0)\<close> and the function.
\<close>

definition checkOp :: "rtype \<Rightarrow> 'f goarg \<Rightarrow> 'e error + rtype \<times> 'f" where
  "checkOp cur arg =
     (case arg of
        Arg (TFunc ins outs) f \<Rightarrow>
          if length ins \<noteq> 1 then Inl (ConfigError WrongArgCount)
          else if cur \<noteq> ins ! 0 then Inl (ConfigError ArgTypeMismatch)
          else if length outs \<noteq> 1 then Inl (ConfigError WrongOutputCount)
          else Inr (outs ! 0, f)
      | _ \<Rightarrow> Inl (ConfigError NotAFunction))"

text \<open>A result argument that must be a pointer to a variable of the upstream type.\<close>

definition checkResultPtr :: "rtype \<Rightarrow> 'v goarg \<Rightarrow> 'e error + 'v" where
  "checkResultPtr cur result =
     (case result of
        Arg (TPtr t) v \<Rightarrow> if t \<noteq> cur then Inl (ConfigError ArgTypeMismatch) else Inr v
      | _ \<Rightarrow> Inl (ConfigError BadResultArg))"

section \<open>SliceStreamer: terminal operations\<close>

text \<open>
  A terminal operation returns the new content of the caller's result variable (and the
  found flag, where the method returns one).
\<close>

definition indexAt :: "int \<Rightarrow> 'a list \<Rightarrow> 'a \<Rightarrow> 'e error + bool \<times> 'a" where
  "indexAt index scanResult val =
     (if int (length scanResult) \<le> index then Inr (False, val)
      else if index < 0 then Inl (RuntimePanic IndexOutOfRange)
      else Inr (True, scanResult ! nat index))"

definition afterScan ::
  "('a, 'e) sorter \<Rightarrow> ('a, 'e) heap \<Rightarrow> addr \<Rightarrow> ('a list \<Rightarrow> 'e error + 'r)
     \<Rightarrow> ('e error + 'r) option" where
  "afterScan srt h streamer k =
     (case SliceStreamer_scan srt h streamer of
        None \<Rightarrow> None
      | Some (Inl e) \<Rightarrow> Some (Inl e)
      | Some (Inr scanResult) \<Rightarrow> Some (k scanResult))"

definition First ::
  "('a, 'e) sorter \<Rightarrow> ('a, 'e) heap \<Rightarrow> addr \<Rightarrow> 'a goarg \<Rightarrow> ('e error + bool \<times> 'a) option" where
  "First srt h streamer result =
     (case checkResultPtr (curType (slices h ! streamer)) result of
        Inl e \<Rightarrow> Some (Inl e)
      | Inr val \<Rightarrow> afterScan srt h streamer (\<lambda>scanResult. indexAt 0 scanResult val))"

definition Last ::
  "('a, 'e) sorter \<Rightarrow> ('a, 'e) heap \<Rightarrow> addr \<Rightarrow> 'a goarg \<Rightarrow> ('e error + bool \<times> 'a) option" where
  "Last srt h streamer result =
     (case checkResultPtr (curType (slices h ! streamer)) result of
        Inl e \<Rightarrow> Some (Inl e)
      | Inr val \<Rightarrow>
          afterScan srt h streamer
            (\<lambda>scanResult. indexAt (int (length scanResult) - 1) scanResult val))"

definition IndexAt ::
  "('a, 'e) sorter \<Rightarrow> ('a, 'e) heap \<Rightarrow> addr \<Rightarrow> int \<Rightarrow> 'a goarg
     \<Rightarrow> ('e error + bool \<times> 'a) option" where
  "IndexAt srt h streamer index result =
     (case checkResultPtr (curType (slices h ! streamer)) result of
        Inl e \<Rightarrow> Some (Inl e)
      | Inr val \<Rightarrow> afterScan srt h streamer (\<lambda>scanResult. indexAt index scanResult val))"

definition Count :: "('a, 'e) sorter \<Rightarrow> ('a, 'e) heap \<Rightarrow> addr \<Rightarrow> ('e error + int) option" where
  "Count srt h streamer = afterScan srt h streamer (\<lambda>result. Inr (int (length result)))"

text \<open>
  \<^verbatim>\<open>Scan\<close>: the result must be a pointer to a slice of the upstream type; a nil slice
  (\<open>None\<close>) is replaced by an empty one, the content is cleared and the scan result
  appended.
\<close>

definition Scan ::
  "('a, 'e) sorter \<Rightarrow> ('a, 'e) heap \<Rightarrow> addr \<Rightarrow> 'a list option goarg
     \<Rightarrow> ('e error + 'a list option) option" where
  "Scan srt h streamer result =
     (case result of
        Arg (TPtr (TSlice t)) val \<Rightarrow>
          if t \<noteq> curType (slices h ! streamer) then Some (Inl (ConfigError ArgTypeMismatch))
          else afterScan srt h streamer (\<lambda>scanResult. Inr (Some ([] @ scanResult)))
      | _ \<Rightarrow> Some (Inl (ConfigError BadResultArg)))"

subsection \<open>Reduce\<close>

fun reduceLoop :: "('a \<Rightarrow> 'a \<Rightarrow> 'e + 'a) \<Rightarrow> 'a \<Rightarrow> 'a list \<Rightarrow> 'e + 'a" where
  "reduceLoop fv baseVal [] = Inr baseVal"
| "reduceLoop fv baseVal (x # xs) =
     (case fv baseVal x of Inl e \<Rightarrow> Inl e | Inr b \<Rightarrow> reduceLoop fv b xs)"

text \<open>\<open>iv\<close> is the content of the caller's result variable; the result is its new content.\<close>

definition reduceData :: "('a \<Rightarrow> 'a \<Rightarrow> 'e + 'a) \<Rightarrow> 'a \<Rightarrow> 'a list \<Rightarrow> 'e error + 'a" where
  "reduceData fv iv data =
     (if length data = 0 then Inr iv
      else if length data = 1 then Inr (data ! 0)
      else (case reduceLoop fv iv data of Inl e \<Rightarrow> Inl (OpPanic e) | Inr baseVal \<Rightarrow> Inr baseVal))"

definition reduce ::
  "('a, 'e) sorter \<Rightarrow> ('a, 'e) heap \<Rightarrow> addr \<Rightarrow> ('a \<Rightarrow> 'a \<Rightarrow> 'e + 'a) \<Rightarrow> 'a
     \<Rightarrow> ('e error + 'a) option" where
  "reduce srt h streamer fv iv = afterScan srt h streamer (reduceData fv iv)"

definition Reduce ::
  "('a, 'e) sorter \<Rightarrow> ('a, 'e) heap \<Rightarrow> addr \<Rightarrow> ('a \<Rightarrow> 'a \<Rightarrow> 'e + 'a) goarg \<Rightarrow> 'a goarg
     \<Rightarrow> ('e error + 'a) option" where
  "Reduce srt h streamer accumulator result =
     (let cur = curType (slices h ! streamer) in
      case accumulator of
        Arg (TFunc ins outs) fv \<Rightarrow>
          if length ins \<noteq> 2 then Some (Inl (ConfigError WrongArgCount))
          else if cur \<noteq> ins ! 0 then Some (Inl (ConfigError ArgTypeMismatch))
          else if cur \<noteq> ins ! 1 then Some (Inl (ConfigError ArgTypeMismatch))
          else if length outs \<noteq> 1 then Some (Inl (ConfigError WrongOutputCount))
          else if cur \<noteq> outs ! 0 then Some (Inl (ConfigError WrongReturnType))
          else (case checkResultPtr cur result of
                  Inl e \<Rightarrow> Some (Inl e)
                | Inr iv \<Rightarrow> reduce srt h streamer fv iv)
      | _ \<Rightarrow> Some (Inl (ConfigError NotAFunction)))"

subsection \<open>GroupBy and ToMap\<close>

text \<open>
  A worker fills its own \<^verbatim>\<open>curGoroutineMap\<close>, starting from the empty map.  A Go map
  is a finite map \<open>'a \<rightharpoonup> 'v\<close>.
\<close>

fun groupWorker ::
  "('a \<Rightarrow> 'e + 'a) \<Rightarrow> 'a list \<Rightarrow> ('a \<rightharpoonup> 'a list) \<Rightarrow> 'e + ('a \<rightharpoonup> 'a list)" where
  "groupWorker keyer [] curGoroutineMap = Inr curGoroutineMap"
| "groupWorker keyer (x # xs) curGoroutineMap =
     (case keyer x of
        Inl e \<Rightarrow> Inl e
      | Inr key \<Rightarrow>
          groupWorker keyer xs
            (curGoroutineMap
               (key \<mapsto> (case curGoroutineMap key of None \<Rightarrow> [] | Some valList \<Rightarrow> valList) @ [x])))"

fun toMapWorker ::
  "('a \<Rightarrow> 'e + 'a) \<Rightarrow> 'a list \<Rightarrow> ('a \<rightharpoonup> 'a) \<Rightarrow> 'e + ('a \<rightharpoonup> 'a)" where
  "toMapWorker keyer [] curGoroutineMap = Inr curGoroutineMap"
| "toMapWorker keyer (x # xs) curGoroutineMap =
     (case keyer x of
        Inl e \<Rightarrow> Inl e
      | Inr key \<Rightarrow> toMapWorker keyer xs (curGoroutineMap(key \<mapsto> x)))"

text \<open>
  The merge of one worker's map into the result: \<^verbatim>\<open>for k, v := range goroutineMap\<close>
  visits every key once and touches the result at that key only, so the order of the
  visit does not show.
\<close>

definition mergeGroup :: "('a \<rightharpoonup> 'a list) \<Rightarrow> ('a \<rightharpoonup> 'a list) \<Rightarrow> ('a \<rightharpoonup> 'a list)" where
  "mergeGroup val goroutineMap =
     (\<lambda>k. case goroutineMap k of
             None \<Rightarrow> val k
           | Some v \<Rightarrow> Some ((case val k of None \<Rightarrow> [] | Some valList \<Rightarrow> valList) @ v))"

definition mergeToMap :: "('a \<rightharpoonup> 'a) \<Rightarrow> ('a \<rightharpoonup> 'a) \<Rightarrow> ('a \<rightharpoonup> 'a)" where
  "mergeToMap val goroutineMap =
     (\<lambda>k. case goroutineMap k of None \<Rightarrow> val k | Some v \<Rightarrow> Some v)"

text \<open>
  The merge of \<^verbatim>\<open>groupBy\<close> goes through \<^verbatim>\<open>reflect\<close>: for a key that the destination
  does not have it starts from \<^verbatim>\<open>reflect.MakeSlice(val.Type().Elem(), 0, len(v))\<close>, for a
  key that it has from the stored value, and appends with \<^verbatim>\<open>reflect.Append\<close>.  Both panic
  when the element type of the destination is not a slice type, so the first key of a
  worker's map panics then.  \<open>elemType\<close> is \<^verbatim>\<open>val.Type().Elem()\<close>.
\<close>

definition mergeGroupStep ::
  "rtype \<Rightarrow> 'e error + ('a \<rightharpoonup> 'a list) \<Rightarrow> ('a \<rightharpoonup> 'a list)
     \<Rightarrow> 'e error + ('a \<rightharpoonup> 'a list)" where
  "mergeGroupStep elemType acc goroutineMap =
     (case acc of
        Inl e \<Rightarrow> Inl e
      | Inr val \<Rightarrow>
          if goroutineMap \<noteq> Map.empty \<and> Kind elemType \<noteq> KSlice
          then Inl (RuntimePanic ReflectPanic)
          else Inr (mergeGroup val goroutineMap))"

definition groupBy ::
  "schedule \<Rightarrow> rtype \<Rightarrow> ('a, 'e) SliceStreamer \<Rightarrow> ('a \<Rightarrow> 'e + 'a) \<Rightarrow> 'a list
     \<Rightarrow> ('a \<rightharpoonup> 'a list) \<Rightarrow> 'e error + ('a \<rightharpoonup> 'a list)" where
  "groupBy sched elemType streamer keyer scanResult val =
     (case forkJoinShared sched (parallel streamer)
             (\<lambda>batch. groupWorker keyer batch Map.empty) scanResult of
        Inl e \<Rightarrow> Inl e
      | Inr resultCollection \<Rightarrow> foldl (mergeGroupStep elemType) (Inr val) resultCollection)"

definition toMap ::
  "schedule \<Rightarrow> ('a, 'e) SliceStreamer \<Rightarrow> ('a \<Rightarrow> 'e + 'a) \<Rightarrow> 'a list \<Rightarrow> ('a \<rightharpoonup> 'a)
     \<Rightarrow> 'e error + ('a \<rightharpoonup> 'a)" where
  "toMap sched streamer keyer scanResult val =
     (case forkJoinShared sched (parallel streamer)
             (\<lambda>batch. toMapWorker keyer batch Map.empty) scanResult of
        Inl e \<Rightarrow> Inl e
      | Inr resultCollection \<Rightarrow> Inr (foldl mergeToMap val resultCollection))"

text \<open>
  The result argument of \<^verbatim>\<open>GroupBy\<close> and \<^verbatim>\<open>ToMap\<close>: a map or a pointer to a map; \<open>None\<close>
  is the nil map.  \<open>elemOk\<close> is the check on the map's element type.  A nil map is
  replaced by a new empty map, which needs the pointer (\<^verbatim>\<open>val.Set\<close> panics on a value
  that is not addressable).  The check gives \<^verbatim>\<open>val\<close>: the element type of the map and its
  content.
\<close>

definition checkResultMap ::
  "rtype \<Rightarrow> (rtype \<Rightarrow> bool option) \<Rightarrow> ('a \<rightharpoonup> 'v) option goarg
     \<Rightarrow> 'e error + rtype \<times> ('a \<rightharpoonup> 'v)" where
  "checkResultMap op1 elemOk result =
     (case result of
        NilArg \<Rightarrow> Inl (ConfigError BadResultArg)
      | Arg t val \<Rightarrow>
          (case (case t of TPtr t' \<Rightarrow> t' | _ \<Rightarrow> t) of
             TMap key elem \<Rightarrow>
               if key \<noteq> op1 then Inl (ConfigError WrongReturnType)
               else (case elemOk elem of
                       None \<Rightarrow> Inl (RuntimePanic ReflectPanic)
                     | Some False \<Rightarrow> Inl (ConfigError ArgTypeMismatch)
                     | Some True \<Rightarrow>
                         (case val of
                            Some m \<Rightarrow> Inr (elem, m)
                          | None \<Rightarrow>
                              if Kind t = KPtr then Inr (elem, Map.empty)
                              else Inl (RuntimePanic ReflectPanic)))
           | _ \<Rightarrow> Inl (ConfigError BadResultArg)))"

text \<open>
  \<^verbatim>\<open>rt.Elem().Elem() != streamer.curType\<close>: \<^verbatim>\<open>Elem\<close> panics on a type without one, and a
  pointer type and a map type have one as a slice type has.
\<close>

definition elemOfElemIs :: "rtype \<Rightarrow> rtype \<Rightarrow> bool option" where
  "elemOfElemIs cur elem =
     (case elem of
        TSlice t \<Rightarrow> Some (t = cur)
      | TPtr t \<Rightarrow> Some (t = cur)
      | TMap k t \<Rightarrow> Some (t = cur)
      | _ \<Rightarrow> None)"

definition GroupBy ::
  "schedule \<Rightarrow> ('a, 'e) sorter \<Rightarrow> ('a, 'e) heap \<Rightarrow> addr \<Rightarrow> ('a \<Rightarrow> 'e + 'a) goarg
     \<Rightarrow> ('a \<rightharpoonup> 'a list) option goarg \<Rightarrow> ('e error + ('a \<rightharpoonup> 'a list)) option" where
  "GroupBy sched srt h streamer keyer result =
     (let s = slices h ! streamer in
      if keyer = NilArg then Some (Inl (ConfigError NilKeyer))
      else (case checkOp (curType s) keyer of
              Inl e \<Rightarrow> Some (Inl e)
            | Inr (op1, fv) \<Rightarrow>
                (case checkResultMap op1 (elemOfElemIs (curType s)) result of
                   Inl e \<Rightarrow> Some (Inl e)
                 | Inr (elemType, val) \<Rightarrow>
                     afterScan srt h streamer
                       (\<lambda>scanResult. groupBy sched elemType s fv scanResult val))))"

definition ToMap ::
  "schedule \<Rightarrow> ('a, 'e) sorter \<Rightarrow> ('a, 'e) heap \<Rightarrow> addr \<Rightarrow> ('a \<Rightarrow> 'e + 'a) goarg
     \<Rightarrow> ('a \<rightharpoonup> 'a) option goarg \<Rightarrow> ('e error + ('a \<rightharpoonup> 'a)) option" where
  "ToMap sched srt h streamer keyer result =
     (let s = slices h ! streamer in
      if keyer = NilArg then Some (Inl (ConfigError NilKeyer))
      else (case checkOp (curType s) keyer of
              Inl e \<Rightarrow> Some (Inl e)
            | Inr (op1, fv) \<Rightarrow>
                (case checkResultMap op1 (\<lambda>elem. Some (elem = curType s)) result of
                   Inl e \<Rightarrow> Some (Inl e)
                 | Inr (elemType, val) \<Rightarrow>
                     afterScan srt h streamer (\<lambda>scanResult. toMap sched s fv scanResult val))))"


section \<open>Building pipelines\<close>

text \<open>\<^verbatim>\<open>&SliceStreamer{...}\<close> and \<^verbatim>\<open>&MapStreamer{...}\<close>: a new node at a new address.\<close>

definition newSliceStreamer ::
  "('a, 'e) heap \<Rightarrow> ('a, 'e) SliceStreamer \<Rightarrow> ('a, 'e) heap \<times> addr" where
  "newSliceStreamer h node = (h\<lparr>slices := slices h @ [node]\<rparr>, length (slices h))"

definition newMapStreamer ::
  "('a, 'e) heap \<Rightarrow> ('a, 'e) MapStreamer \<Rightarrow> ('a, 'e) heap \<times> addr" where
  "newMapStreamer h node = (h\<lparr>maps := maps h @ [node]\<rparr>, length (maps h))"

text \<open>
  \<^verbatim>\<open>OfSlice\<close> takes a slice or a pointer to one and copies its elements.  Any other
  argument ends in a panic (of \<^verbatim>\<open>reflect\<close> or the one of the function).
\<close>

definition OfSlice :: "('a, 'e) heap \<Rightarrow> 'a list goarg \<Rightarrow> 'e error + ('a, 'e) heap \<times> addr" where
  "OfSlice h data =
     (case data of
        NilArg \<Rightarrow> Inl (ConfigError NotASliceOrMap)
      | Arg t val \<Rightarrow>
          (case (case t of TPtr t' \<Rightarrow> t' | _ \<Rightarrow> t) of
             TSlice elem \<Rightarrow>
               Inr (newSliceStreamer h
                 \<lparr>lastStreamer = None, dataGetter = Some (sliceGetter ([] @ val)), parallel = 1,
                  filterFunc = None, mapFunc = None, flatMapFunc = None, sortFunc = None,
                  offset = 0, limit = 0, curType = elem\<rparr>)
           | _ \<Rightarrow> Inl (ConfigError NotASliceOrMap)))"

text \<open>
  \<^verbatim>\<open>Parallel\<close> assigns the field of the receiver and returns the receiver.  \<open>numCPU\<close> is
  \<^verbatim>\<open>runtime.NumCPU()\<close>.
\<close>

definition clampParallel :: "int \<Rightarrow> int \<Rightarrow> int" where
  "clampParallel numCPU p =
     (let p1 = (if p \<le> 0 then 1 else p)
      in if p1 > numCPU * 2 then numCPU * 2 else p1)"

definition SliceStreamer_Parallel ::
  "int \<Rightarrow> ('a, 'e) heap \<Rightarrow> addr \<Rightarrow> int \<Rightarrow> ('a, 'e) heap \<times> addr" where
  "SliceStreamer_Parallel numCPU h streamer p =
     (h\<lparr>slices := (slices h)
          [streamer := (slices h ! streamer)\<lparr>parallel := clampParallel numCPU p\<rparr>]\<rparr>,
      streamer)"

fun checkFilters ::
  "rtype \<Rightarrow> ('a \<Rightarrow> 'e + bool) goarg list \<Rightarrow> 'e error + ('a \<Rightarrow> 'e + bool) list" where
  "checkFilters cur [] = Inr []"
| "checkFilters cur (flt # rest) =
     (case checkOp cur flt of
        Inl e \<Rightarrow> Inl e
      | Inr (op1, fv) \<Rightarrow>
          if Kind op1 \<noteq> KBool then Inl (ConfigError WrongReturnType)
          else (case checkFilters cur rest of Inl e \<Rightarrow> Inl e | Inr fvs \<Rightarrow> Inr (fv # fvs)))"

definition SliceStreamer_Filter ::
  "('a, 'e) heap \<Rightarrow> addr \<Rightarrow> ('a \<Rightarrow> 'e + bool) goarg list
     \<Rightarrow> 'e error + ('a, 'e) heap \<times> addr" where
  "SliceStreamer_Filter h streamer filters =
     (let s = slices h ! streamer in
      case checkFilters (curType s) filters of
        Inl e \<Rightarrow> Inl e
      | Inr fvs \<Rightarrow>
          Inr (newSliceStreamer h
            \<lparr>lastStreamer = Some streamer, dataGetter = None, parallel = parallel s,
             filterFunc = Some fvs, mapFunc = None, flatMapFunc = None, sortFunc = None,
             offset = offset s, limit = limit s, curType = curType s\<rparr>))"

definition SliceStreamer_Map ::
  "('a, 'e) heap \<Rightarrow> addr \<Rightarrow> ('a \<Rightarrow> 'e + 'a) goarg \<Rightarrow> 'e error + ('a, 'e) heap \<times> addr" where
  "SliceStreamer_Map h streamer mapper =
     (let s = slices h ! streamer in
      case checkOp (curType s) mapper of
        Inl e \<Rightarrow> Inl e
      | Inr (op1, fv) \<Rightarrow>
          Inr (newSliceStreamer h
            \<lparr>lastStreamer = Some streamer, dataGetter = None, parallel = parallel s,
             filterFunc = None, mapFunc = Some fv, flatMapFunc = None, sortFunc = None,
             offset = offset s, limit = limit s, curType = op1\<rparr>))"

definition SliceStreamer_FlatMap ::
  "('a, 'e) heap \<Rightarrow> addr \<Rightarrow> ('a \<Rightarrow> 'e + 'a list) goarg \<Rightarrow> 'e error + ('a, 'e) heap \<times> addr" where
  "SliceStreamer_FlatMap h streamer flatMapper =
     (let s = slices h ! streamer in
      case checkOp (curType s) flatMapper of
        Inl e \<Rightarrow> Inl e
      | Inr (op1, fv) \<Rightarrow>
          (case op1 of
             TSlice elem \<Rightarrow>
               Inr (newSliceStreamer h
                 \<lparr>lastStreamer = Some streamer, dataGetter = None, parallel = parallel s,
                  filterFunc = None, mapFunc = None, flatMapFunc = Some fv, sortFunc = None,
                  offset = offset s, limit = limit s, curType = elem\<rparr>)
           | _ \<Rightarrow> Inl (ConfigError WrongReturnType)))"

definition SliceStreamer_Limit ::
  "('a, 'e) heap \<Rightarrow> addr \<Rightarrow> int \<Rightarrow> 'e error + ('a, 'e) heap \<times> addr" where
  "SliceStreamer_Limit h streamer n =
     (let s = slices h ! streamer in
      if n \<le> 0 then Inl (ConfigError NonPositiveRows)
      else Inr (newSliceStreamer h
             \<lparr>lastStreamer = Some streamer, dataGetter = None, parallel = parallel s,
              filterFunc = None, mapFunc = None, flatMapFunc = None, sortFunc = None,
              offset = offset s, limit = n, curType = curType s\<rparr>))"

definition SliceStreamer_Offset ::
  "('a, 'e) heap \<Rightarrow> addr \<Rightarrow> int \<Rightarrow> 'e error + ('a, 'e) heap \<times> addr" where
  "SliceStreamer_Offset h streamer n =
     (let s = slices h ! streamer in
      if n \<le> 0 then Inl (ConfigError NonPositiveRows)
      else Inr (newSliceStreamer h
             \<lparr>lastStreamer = Some streamer, dataGetter = None, parallel = parallel s,
              filterFunc = None, mapFunc = None, flatMapFunc = None, sortFunc = None,
              offset = n, limit = limit s, curType = curType s\<rparr>))"

definition SliceStreamer_Sorted ::
  "('a, 'e) heap \<Rightarrow> addr \<Rightarrow> ('a \<Rightarrow> 'a \<Rightarrow> 'e + bool) goarg
     \<Rightarrow> 'e error + ('a, 'e) heap \<times> addr" where
  "SliceStreamer_Sorted h streamer sorter =
     (let s = slices h ! streamer in
      case sorter of
        Arg (TFunc ins outs) fv \<Rightarrow>
          if length ins \<noteq> 2 then Inl (ConfigError WrongArgCount)
          else if ins ! 0 \<noteq> ins ! 1 then Inl (ConfigError ArgTypeMismatch)
          else if ins ! 0 \<noteq> curType s then Inl (ConfigError ArgTypeMismatch)
          else if length outs \<noteq> 1 then Inl (ConfigError WrongOutputCount)
          else if Kind (outs ! 0) \<noteq> KBool then Inl (ConfigError WrongReturnType)
          else Inr (newSliceStreamer h
                 \<lparr>lastStreamer = Some streamer, dataGetter = None, parallel = parallel s,
                  filterFunc = None, mapFunc = None, flatMapFunc = None, sortFunc = Some fv,
                  offset = offset s, limit = limit s, curType = curType s\<rparr>)
      | _ \<Rightarrow> Inl (ConfigError NotAFunction))"

subsection \<open>MapStreamer\<close>

text \<open>
  \<^verbatim>\<open>OfMap\<close> takes a map or a pointer to one and lists its pairs in the order of the map
  iterator; the argument's value is that list.
\<close>

definition OfMap ::
  "('a, 'e) heap \<Rightarrow> ('a \<times> 'a) list goarg \<Rightarrow> 'e error + ('a, 'e) heap \<times> addr" where
  "OfMap h data =
     (case data of
        NilArg \<Rightarrow> Inl (ConfigError NotASliceOrMap)
      | Arg t val \<Rightarrow>
          (case (case t of TPtr t' \<Rightarrow> t' | _ \<Rightarrow> t) of
             TMap key elem \<Rightarrow>
               Inr (newMapStreamer h
                 \<lparr>mLastStreamer = None, mParallel = 1, mFilterFunc = None, mMapFunc = None,
                  mFlatMapFunc = None, pairData = [] @ val, curKeyType = key,
                  curValueType = elem\<rparr>)
           | _ \<Rightarrow> Inl (ConfigError NotASliceOrMap)))"

definition MapStreamer_Parallel ::
  "int \<Rightarrow> ('a, 'e) heap \<Rightarrow> addr \<Rightarrow> int \<Rightarrow> ('a, 'e) heap \<times> addr" where
  "MapStreamer_Parallel numCPU h streamer p =
     (h\<lparr>maps := (maps h)
          [streamer := (maps h ! streamer)\<lparr>mParallel := clampParallel numCPU p\<rparr>]\<rparr>,
      streamer)"

text \<open>The check of a two-argument operation on keys and values.\<close>

definition checkOp2 :: "rtype \<Rightarrow> rtype \<Rightarrow> 'f goarg \<Rightarrow> 'e error + rtype \<times> 'f" where
  "checkOp2 curKey curValue arg =
     (case arg of
        Arg (TFunc ins outs) f \<Rightarrow>
          if length ins \<noteq> 2 then Inl (ConfigError WrongArgCount)
          else if curKey \<noteq> ins ! 0 then Inl (ConfigError ArgTypeMismatch)
          else if curValue \<noteq> ins ! 1 then Inl (ConfigError ArgTypeMismatch)
          else if length outs \<noteq> 1 then Inl (ConfigError WrongOutputCount)
          else Inr (outs ! 0, f)
      | _ \<Rightarrow> Inl (ConfigError NotAFunction))"

fun checkFilters2 ::
  "rtype \<Rightarrow> rtype \<Rightarrow> ('a \<Rightarrow> 'a \<Rightarrow> 'e + bool) goarg list
     \<Rightarrow> 'e error + ('a \<Rightarrow> 'a \<Rightarrow> 'e + bool) list" where
  "checkFilters2 curKey curValue [] = Inr []"
| "checkFilters2 curKey curValue (flt # rest) =
     (case checkOp2 curKey curValue flt of
        Inl e \<Rightarrow> Inl e
      | Inr (op1, fv) \<Rightarrow>
          if Kind op1 \<noteq> KBool then Inl (ConfigError WrongReturnType)
          else (case checkFilters2 curKey curValue rest of
                  Inl e \<Rightarrow> Inl e
                | Inr fvs \<Rightarrow> Inr (fv # fvs)))"

definition MapStreamer_Filter ::
  "('a, 'e) heap \<Rightarrow> addr \<Rightarrow> ('a \<Rightarrow> 'a \<Rightarrow> 'e + bool) goarg list
     \<Rightarrow> 'e error + ('a, 'e) heap \<times> addr" where
  "MapStreamer_Filter h streamer filters =
     (let s = maps h ! streamer in
      case checkFilters2 (curKeyType s) (curValueType s) filters of
        Inl e \<Rightarrow> Inl e
      | Inr fvs \<Rightarrow>
          Inr (newMapStreamer h
            \<lparr>mLastStreamer = Some streamer, mParallel = mParallel s, mFilterFunc = Some fvs,
             mMapFunc = None, mFlatMapFunc = None, pairData = [],
             curKeyType = curKeyType s, curValueType = curValueType s\<rparr>))"

text \<open>
  \<^verbatim>\<open>Map\<close> and \<^verbatim>\<open>FlatMap\<close> of a MapStreamer allocate a MapStreamer node and return a
  new root SliceStreamer whose data getter scans that node.
\<close>

definition MapStreamer_Map ::
  "('a, 'e) heap \<Rightarrow> addr \<Rightarrow> ('a \<Rightarrow> 'a \<Rightarrow> 'e + 'a) goarg
     \<Rightarrow> 'e error + ('a, 'e) heap \<times> addr" where
  "MapStreamer_Map h streamer mapper =
     (let s = maps h ! streamer in
      case checkOp2 (curKeyType s) (curValueType s) mapper of
        Inl e \<Rightarrow> Inl e
      | Inr (op1, fv) \<Rightarrow>
          (case newMapStreamer h
                  \<lparr>mLastStreamer = Some streamer, mParallel = mParallel s, mFilterFunc = None,
                   mMapFunc = Some fv, mFlatMapFunc = None, pairData = [],
                   curKeyType = curKeyType s, curValueType = curValueType s\<rparr> of
             (h1, newStreamer) \<Rightarrow>
               Inr (newSliceStreamer h1
                 \<lparr>lastStreamer = None, dataGetter = Some (mapGetter newStreamer),
                  parallel = mParallel s, filterFunc = None, mapFunc = None,
                  flatMapFunc = None, sortFunc = None, offset = 0, limit = 0,
                  curType = op1\<rparr>)))"

definition MapStreamer_FlatMap ::
  "('a, 'e) heap \<Rightarrow> addr \<Rightarrow> ('a \<Rightarrow> 'a \<Rightarrow> 'e + 'a list) goarg
     \<Rightarrow> 'e error + ('a, 'e) heap \<times> addr" where
  "MapStreamer_FlatMap h streamer flatMapper =
     (let s = maps h ! streamer in
      case checkOp2 (curKeyType s) (curValueType s) flatMapper of
        Inl e \<Rightarrow> Inl e
      | Inr (op1, fv) \<Rightarrow>
          (case op1 of
             TSlice elem \<Rightarrow>
               (case newMapStreamer h
                       \<lparr>mLastStreamer = Some streamer, mParallel = mParallel s,
                        mFilterFunc = None, mMapFunc = None, mFlatMapFunc = Some fv,
                        pairData = [], curKeyType = curKeyType s,
                        curValueType = curValueType s\<rparr> of
                  (h1, newStreamer) \<Rightarrow>
                    Inr (newSliceStreamer h1
                      \<lparr>lastStreamer = None, dataGetter = Some (mapGetter newStreamer),
                       parallel = mParallel s, filterFunc = None, mapFunc = None,
                       flatMapFunc = None, sortFunc = None, offset = 0, limit = 0,
                       curType = elem\<rparr>))
           | _ \<Rightarrow> Inl (ConfigError WrongReturnType)))"

text \<open>
  \<^verbatim>\<open>KeysToStream\<close> and \<^verbatim>\<open>ValuesToStream\<close> run the filter-only loop at once and return a
  new root SliceStreamer over the keys (the values) of the pairs that are left.
\<close>

definition projectToStream ::
  "('a \<times> 'a \<Rightarrow> 'a) \<Rightarrow> (('a, 'e) MapStreamer \<Rightarrow> rtype) \<Rightarrow> ('a, 'e) heap \<Rightarrow> addr
     \<Rightarrow> ('e error + ('a, 'e) heap \<times> addr) option" where
  "projectToStream field fieldType h streamer =
     (case streamerList mLastStreamer (maps h) (Some streamer) of
        None \<Rightarrow> None
      | Some sl \<Rightarrow>
          Some (case MapStreamer_filterLoop (rev sl) ([] @ pairData (last sl)) of
                  Inl e \<Rightarrow> Inl e
                | Inr newData \<Rightarrow>
                    Inr (newSliceStreamer h
                      \<lparr>lastStreamer = None,
                       dataGetter = Some (sliceGetter (map field newData)),
                       parallel = mParallel (hd sl), filterFunc = None, mapFunc = None,
                       flatMapFunc = None, sortFunc = None, offset = 0, limit = 0,
                       curType = fieldType (hd sl)\<rparr>)))"

definition KeysToStream ::
  "('a, 'e) heap \<Rightarrow> addr \<Rightarrow> ('e error + ('a, 'e) heap \<times> addr) option" where
  "KeysToStream h streamer = projectToStream fst curKeyType h streamer"

definition ValuesToStream ::
  "('a, 'e) heap \<Rightarrow> addr \<Rightarrow> ('e error + ('a, 'e) heap \<times> addr) option" where
  "ValuesToStream h streamer = projectToStream snd curValueType h streamer"

section \<open>Notions used by the properties\<close>

text \<open>
  A worker is sequential when it handles an empty range with an empty result and a range
  \<open>xs @ ys\<close> by handling \<open>xs\<close>, then \<open>ys\<close>, and appending; the first panic ends it.
\<close>

definition sequentialWorker :: "('a list \<Rightarrow> 'e + 'r list) \<Rightarrow> bool" where
  "sequentialWorker w =
     (w [] = Inr [] \<and>
      (\<forall>xs ys. w (xs @ ys) =
         (case w xs of
            Inl e \<Rightarrow> Inl e
          | Inr r \<Rightarrow> (case w ys of Inl e \<Rightarrow> Inl e | Inr r' \<Rightarrow> Inr (r @ r')))))"

text \<open>
  What the caller of a stage can rely on: the result, or the bare fact of a panic.  The
  panic value itself is left out, since it is whichever a worker wrote last.
\<close>

definition outcome :: "'x + 'r \<Rightarrow> unit + 'r" where
  "outcome res = (case res of Inl _ \<Rightarrow> Inl () | Inr r \<Rightarrow> Inr r)"

text \<open>
  The result \<open>(h', new)\<close> of a builder call on the heap \<open>h\<close> with the receiver
  \<open>streamer\<close> allocates a child: \<open>new\<close> is an address that was not in use, the nodes
  of \<open>h\<close> are all as they were, and the parent of the new node is the receiver.
\<close>

definition allocatesChildOf ::
  "('a, 'e) heap \<Rightarrow> addr \<Rightarrow> ('a, 'e) heap \<times> addr \<Rightarrow> bool" where
  "allocatesChildOf h streamer res =
     (case res of
        (h', new) \<Rightarrow>
          new = length (slices h) \<and>
          length (slices h') = Suc (length (slices h)) \<and>
          take (length (slices h)) (slices h') = slices h \<and>
          maps h' = maps h \<and>
          lastStreamer (slices h' ! new) = Some streamer)"

text \<open>
  The grouping and the last-wins map over a whole sequence, in the words of the
  specification: the group of a key is the subsequence of the elements with that key, in
  their order; the last-wins map binds a key to the last element with that key.
\<close>

definition groupOf :: "('a \<Rightarrow> 'e + 'a) \<Rightarrow> 'a list \<Rightarrow> ('a \<rightharpoonup> 'a list)" where
  "groupOf keyer xs =
     (\<lambda>c. if filter (\<lambda>x. keyer x = Inr c) xs = [] then None
          else Some (filter (\<lambda>x. keyer x = Inr c) xs))"

definition lastOf :: "('a \<Rightarrow> 'e + 'a) \<Rightarrow> 'a list \<Rightarrow> ('a \<rightharpoonup> 'a)" where
  "lastOf keyer xs =
     (\<lambda>c. if filter (\<lambda>x. keyer x = Inr c) xs = [] then None
          else Some (last (filter (\<lambda>x. keyer x = Inr c) xs)))"

text \<open>
  \<open>isChain parent h p sl\<close>: following the parent pointers from \<open>p\<close> through the heap \<open>h\<close>
  visits exactly the nodes \<open>sl\<close> and ends at a root.
\<close>

fun isChain :: "('n \<Rightarrow> addr option) \<Rightarrow> 'n list \<Rightarrow> addr option \<Rightarrow> 'n list \<Rightarrow> bool" where
  "isChain parent h p [] = (p = None)"
| "isChain parent h p (n # rest) =
     (case p of
        None \<Rightarrow> False
      | Some a \<Rightarrow> a < length h \<and> n = h ! a \<and> isChain parent h (parent n) rest)"

text \<open>
  A pair passes the filter stage \<open>s\<close> of a MapStreamer when every predicate of the stage
  returns true on it (a stage without predicates lets every pair pass).
\<close>

definition passesFilters :: "('a, 'e) MapStreamer \<Rightarrow> 'a \<times> 'a \<Rightarrow> bool" where
  "passesFilters s p =
     (case mFilterFunc s of
        None \<Rightarrow> True
      | Some fs \<Rightarrow> list_all (\<lambda>f. f (fst p) (snd p) = Inr True) fs)"

text \<open>The heap with the map and flat-map functions of every MapStreamer node removed.\<close>

definition withoutMapFuncs :: "('a, 'e) heap \<Rightarrow> ('a, 'e) heap" where
  "withoutMapFuncs h =
     h\<lparr>maps := map (\<lambda>s. s\<lparr>mMapFunc := None, mFlatMapFunc := None\<rparr>) (maps h)\<rparr>"

text \<open>
  The root SliceStreamer that \<^verbatim>\<open>KeysToStream\<close> and \<^verbatim>\<open>ValuesToStream\<close> return: a slice
  getter over the projected data, the parallelism of the receiver, nothing else set.
\<close>

definition projectedRoot :: "'a list \<Rightarrow> int \<Rightarrow> rtype \<Rightarrow> ('a, 'e) SliceStreamer" where
  "projectedRoot data k t =
     \<lparr>lastStreamer = None, dataGetter = Some (sliceGetter data), parallel = k,
      filterFunc = None, mapFunc = None, flatMapFunc = None, sortFunc = None,
      offset = 0, limit = 0, curType = t\<rparr>"

text \<open>What of the result of a projection is about the new SliceStreamer pipeline.\<close>

definition sliceSide ::
  "('e error + ('a, 'e) heap \<times> addr) option \<Rightarrow> ('e error + ('a, 'e) SliceStreamer list \<times> addr) option"
  where
  "sliceSide res =
     (case res of
        None \<Rightarrow> None
      | Some (Inl e) \<Rightarrow> Some (Inl e)
      | Some (Inr (h', new)) \<Rightarrow> Some (Inr (slices h', new)))"

text \<open>Two SliceStreamer nodes that differ at most in their offset and limit.\<close>

definition sameButWindow :: "('a, 'e) SliceStreamer \<Rightarrow> ('a, 'e) SliceStreamer \<Rightarrow> bool" where
  "sameButWindow s s' = (s' = s\<lparr>offset := offset s', limit := limit s'\<rparr>)"




section \<open>Example pipelines\<close>

text \<open>
  A stage over integers with two predicates (at least 18; not 20, panicking on 99), a
  mapper and a flat-mapper.
\<close>

definition demoStage :: "(int, string) SliceStreamer" where
  "demoStage =
     \<lparr>lastStreamer = None, dataGetter = None, parallel = 1,
      filterFunc = Some [\<lambda>x. Inr (18 \<le> x), \<lambda>x. if x = 99 then Inl ''boom'' else Inr (x \<noteq> 20)],
      mapFunc = Some (\<lambda>x. Inr (x + 1)),
      flatMapFunc = Some (\<lambda>x. Inr [x, x]), sortFunc = None,
      offset = 0, limit = 0, curType = TNamed ''int''\<rparr>"

text \<open>
  An instance of the sorter parameter for the examples: insertion sort with the
  comparator as the less-than test.
\<close>

fun insertBy :: "('a \<Rightarrow> 'a \<Rightarrow> 'e + bool) \<Rightarrow> 'a \<Rightarrow> 'a list \<Rightarrow> 'e + 'a list" where
  "insertBy cmp x [] = Inr [x]"
| "insertBy cmp x (y # ys) =
     (case cmp x y of
        Inl e \<Rightarrow> Inl e
      | Inr b \<Rightarrow>
          if b then Inr (x # y # ys)
          else (case insertBy cmp x ys of Inl e \<Rightarrow> Inl e | Inr r \<Rightarrow> Inr (y # r)))"

fun insertionSort :: "('a, 'e) sorter" where
  "insertionSort cmp [] = Inr []"
| "insertionSort cmp (x # xs) =
     (case insertionSort cmp xs of Inl e \<Rightarrow> Inl e | Inr r \<Rightarrow> insertBy cmp x r)"

text \<open>Heaps over integers: a root over a slice, and a child node of the root.\<close>

definition intType :: rtype where
  "intType = TNamed ''int''"

definition emptyHeap :: "(int, string) heap" where
  "emptyHeap = \<lparr>slices = [], maps = []\<rparr>"

definition rootNode :: "int list \<Rightarrow> (int, string) SliceStreamer" where
  "rootNode xs =
     \<lparr>lastStreamer = None, dataGetter = Some (sliceGetter xs), parallel = 1,
      filterFunc = None, mapFunc = None, flatMapFunc = None, sortFunc = None,
      offset = 0, limit = 0, curType = intType\<rparr>"

definition rootHeap :: "int list \<Rightarrow> (int, string) heap" where
  "rootHeap xs = \<lparr>slices = [rootNode xs], maps = []\<rparr>"

definition childNode :: "(int, string) SliceStreamer" where
  "childNode =
     \<lparr>lastStreamer = Some 0, dataGetter = None, parallel = 1,
      filterFunc = None, mapFunc = None, flatMapFunc = None, sortFunc = None,
      offset = 0, limit = 0, curType = intType\<rparr>"

definition offsetHeap :: "(int, string) heap" where
  "offsetHeap = \<lparr>slices = [rootNode [10, 20, 30], childNode\<lparr>offset := 5\<rparr>], maps = []\<rparr>"

text \<open>The predicate of the not-found case of the tests: no element passes.\<close>

definition notFound :: "int \<Rightarrow> string + bool" where
  "notFound x = Inr (x > 100)"

definition notFoundHeap :: "(int, string) heap" where
  "notFoundHeap =
     \<lparr>slices = [rootNode [10, 20, 30], childNode\<lparr>filterFunc := Some [notFound]\<rparr>], maps = []\<rparr>"

text \<open>A keyer (the last decimal digit), and a root whose parallelism was set to 2.\<close>

definition lastDigit :: "int \<Rightarrow> string + int" where
  "lastDigit x = Inr (x mod 10)"

definition parallelRootHeap :: "int list \<Rightarrow> (int, string) heap" where
  "parallelRootHeap xs = fst (SliceStreamer_Parallel 4 (rootHeap xs) 0 2)"

text \<open>
  A MapStreamer chain over four pairs: the root, a filter stage (even keys), and a map
  stage (key plus value) with the root SliceStreamer that \<^verbatim>\<open>Map\<close> returns for it.
\<close>

definition evenKey :: "int \<Rightarrow> int \<Rightarrow> string + bool" where
  "evenKey k v = Inr (k mod 2 = 0)"

definition keyPlusValue :: "int \<Rightarrow> int \<Rightarrow> string + int" where
  "keyPlusValue k v = Inr (k + v)"

definition pairsRoot :: "(int, string) MapStreamer" where
  "pairsRoot =
     \<lparr>mLastStreamer = None, mParallel = 1, mFilterFunc = None, mMapFunc = None,
      mFlatMapFunc = None, pairData = [(1, 10), (2, 20), (3, 30), (4, 40)],
      curKeyType = intType, curValueType = intType\<rparr>"

definition pairsHeap :: "(int, string) heap" where
  "pairsHeap =
     \<lparr>slices = [(rootNode [])\<lparr>dataGetter := Some (mapGetter 2)\<rparr>],
      maps = [pairsRoot,
              pairsRoot\<lparr>mLastStreamer := Some 0, mFilterFunc := Some [evenKey], pairData := []\<rparr>,
              pairsRoot\<lparr>mLastStreamer := Some 1, mMapFunc := Some keyPlusValue, pairData := []\<rparr>]\<rparr>"



text \<open>The root of \<^verbatim>\<open>OfSlice(xs).Parallel(3)\<close>, on a machine with four processors.\<close>

definition threeWorkersHeap :: "int list \<Rightarrow> (int, string) heap" where
  "threeWorkersHeap xs = fst (SliceStreamer_Parallel 4 (rootHeap xs) 0 3)"


section \<open>Batches and workers\<close>


lemma concat_equal_batches:
  "concat (map (\<lambda>i. take b (drop (i * b) xs)) [0..<m]) = take (m * b) xs"
proof (induction m)
  case 0
  show ?case by simp
next
  case (Suc m)
  have "take (b + m * b) xs = take (m * b) xs @ take b (drop (m * b) xs)"
    using take_add [of "m * b" b xs] by (simp add: add.commute)
  then show ?case using Suc by simp
qed

lemma batchBounds_inner:
  "i < k - 1 \<Longrightarrow> batchBounds k n i = (i * (n div k), i * (n div k) + n div k)"
  by (simp add: batchBounds_def Let_def)

lemma batchBounds_last:
  "0 < k \<Longrightarrow> batchBounds k n (k - 1) = ((k - 1) * (n div k), n)"
proof -
  assume k: "0 < k"
  have "(k - 1) * (n div k) + n div k = k * (n div k)"
    using k by (cases k) simp_all
  moreover have le: "k * (n div k) \<le> n" by simp
  have "\<not> k * (n div k) < n \<Longrightarrow> k * (n div k) = n"
    using le by arith
  ultimately show ?thesis
    by (auto simp: batchBounds_def Let_def)
qed

lemma batches_split:
  assumes "1 \<le> k"
  shows "batches k data =
           map (\<lambda>i. take (length data div nat k) (drop (i * (length data div nat k)) data))
               [0..<nat k - 1]
           @ [drop ((nat k - 1) * (length data div nat k)) data]"
proof -
  from assms obtain m where m: "nat k = Suc m" by (cases "nat k") auto
  have last: "batchBounds (Suc m) (length data) m = (m * (length data div Suc m), length data)"
    using batchBounds_last [of "Suc m" "length data"] by simp
  have inner: "\<And>i. i < m \<Longrightarrow> batchBounds (Suc m) (length data) i
         = (i * (length data div Suc m), i * (length data div Suc m) + length data div Suc m)"
    using batchBounds_inner [of _ "Suc m" "length data"] by simp
  show ?thesis
    unfolding batches_def m
    by (simp add: last inner)
qed

lemma concat_batches: "1 \<le> k \<Longrightarrow> concat (batches k data) = data"
  by (simp add: batches_split concat_equal_batches)


lemma batches_one: "batches 1 data = [data]"
  by (simp add: batches_split)



lemma filterWorker_append:
  "filterWorker fs (xs @ ys) =
     (case filterWorker fs xs of
        Inl e \<Rightarrow> Inl e
      | Inr r \<Rightarrow> (case filterWorker fs ys of Inl e \<Rightarrow> Inl e | Inr r' \<Rightarrow> Inr (r @ r')))"
  by (induction xs) (auto split: sum.splits)

lemma mapWorker_append:
  "mapWorker f (xs @ ys) =
     (case mapWorker f xs of
        Inl e \<Rightarrow> Inl e
      | Inr r \<Rightarrow> (case mapWorker f ys of Inl e \<Rightarrow> Inl e | Inr r' \<Rightarrow> Inr (r @ r')))"
  by (induction xs) (auto split: sum.splits)

lemma flatMapWorker_append:
  "flatMapWorker f (xs @ ys) =
     (case flatMapWorker f xs of
        Inl e \<Rightarrow> Inl e
      | Inr r \<Rightarrow> (case flatMapWorker f ys of Inl e \<Rightarrow> Inl e | Inr r' \<Rightarrow> Inr (r @ r')))"
  by (induction xs) (auto split: sum.splits)

lemma sequentialWorker_filter: "sequentialWorker (filterWorker fs)"
  by (simp add: sequentialWorker_def filterWorker_append)

lemma sequentialWorker_map: "sequentialWorker (mapWorker f)"
  by (simp add: sequentialWorker_def mapWorker_append)

lemma sequentialWorker_flatMap: "sequentialWorker (flatMapWorker f)"
  by (simp add: sequentialWorker_def flatMapWorker_append)

lemma joinWorkers_Inr:
  "(joinWorkers rs = Inr ys) = (list_all (\<lambda>r. \<not> isl r) rs \<and> ys = map projr rs)"
  by (auto simp: joinWorkers_def filter_empty_conv list_all_iff)

lemma joinWorkers_Inl:
  "isl (joinWorkers rs) = (\<not> list_all (\<lambda>r. \<not> isl r) rs)"
  by (auto simp: joinWorkers_def filter_empty_conv list_all_iff)

lemma sequentialWorker_concat:
  assumes "sequentialWorker w"
  shows "(w (concat bs) = Inr r) =
           (list_all (\<lambda>b. \<not> isl (w b)) bs \<and> r = concat (map (\<lambda>b. projr (w b)) bs))"
proof (induction bs arbitrary: r)
  case Nil
  from assms show ?case by (auto simp: sequentialWorker_def)
next
  case (Cons b bs)
  from assms have app: "w (b @ concat bs) =
         (case w b of
            Inl e \<Rightarrow> Inl e
          | Inr r \<Rightarrow> (case w (concat bs) of Inl e \<Rightarrow> Inl e | Inr r' \<Rightarrow> Inr (r @ r')))"
    by (simp add: sequentialWorker_def)
  show ?case
  proof (cases "w b")
    case (Inl e)
    then show ?thesis by (simp add: app)
  next
    case (Inr rb)
    show ?thesis
    proof (cases "w (concat bs)")
      case (Inl e)
      with Cons.IH [of undefined] Cons.IH Inr show ?thesis
        by (auto simp: app)
    next
      case rest: (Inr rr)
      with Cons.IH [of rr] Inr show ?thesis
        by (auto simp: app)
    qed
  qed
qed

lemma joinWorkers_map_Inr:
  "(joinWorkers (map w bs) = Inr ys) =
     (list_all (\<lambda>b. \<not> isl (w b)) bs \<and> ys = map (\<lambda>b. projr (w b)) bs)"
  by (simp add: joinWorkers_Inr list_all_iff comp_def)

lemma forkJoin_sequential:
  assumes "1 \<le> k" and "sequentialWorker w"
  shows "(concatSlots (forkJoin k w data) = Inr r) = (w data = Inr r)"
proof -
  have fj: "forkJoin k w data = joinWorkers (map w (batches k data))"
    using assms(1) by (simp add: forkJoin_def)
  have "(concatSlots (forkJoin k w data) = Inr r) =
          (list_all (\<lambda>b. \<not> isl (w b)) (batches k data)
             \<and> r = concat (map (\<lambda>b. projr (w b)) (batches k data)))"
  proof (cases "joinWorkers (map w (batches k data))")
    case (Inl e)
    then have "\<not> list_all (\<lambda>b. \<not> isl (w b)) (batches k data)"
      using joinWorkers_map_Inr [of w "batches k data"] by auto
    with Inl show ?thesis by (simp add: fj concatSlots_def)
  next
    case (Inr ys)
    then show ?thesis
      using joinWorkers_map_Inr [of w "batches k data" ys]
      by (auto simp: fj concatSlots_def)
  qed
  also have "\<dots> = (w (concat (batches k data)) = Inr r)"
    by (simp add: sequentialWorker_concat [OF assms(2)])
  finally show ?thesis
    using assms(1) by (simp add: concat_batches)
qed

lemma isl_iff_no_Inr: "isl x = (\<forall>r. x \<noteq> Inr r)"
  by (cases x) auto

lemma forkJoin_sequential_isl:
  assumes "1 \<le> k" and "sequentialWorker w"
  shows "isl (concatSlots (forkJoin k w data)) = isl (w data)"
  unfolding isl_iff_no_Inr forkJoin_sequential [OF assms] ..



lemma outcome_simps [simp]: "outcome (Inl e) = Inl ()" "outcome (Inr r) = Inr r"
  by (simp_all add: outcome_def)






section \<open>The window of scan\<close>

text \<open>
  Claim C1 says that scan returns the slice that starts at \<open>min(o, n)\<close>, so the empty
  window when the offset \<open>o\<close> of the leaf is at least the length \<open>n\<close> of the transformed
  sequence.  The code keeps the offset only when it is below the length and uses 0
  otherwise: \<^verbatim>\<open>OfSlice([]int{10, 20, 30}).Offset(5)\<close> scans to all three elements, and
  \<^verbatim>\<open>Scan\<close> and \<^verbatim>\<open>Count\<close> report them.
\<close>

theorem scan_offset_beyond_length:
  "OfSlice emptyHeap (Arg (TSlice intType) [10, 20, 30]) = Inr (rootHeap [10, 20, 30], 0) \<and>
   SliceStreamer_Offset (rootHeap [10, 20, 30]) 0 5 = Inr (offsetHeap, 1) \<and>
   SliceStreamer_scan insertionSort offsetHeap 1 = Some (Inr [10, 20, 30]) \<and>
   Scan insertionSort offsetHeap 1 (Arg (TPtr (TSlice intType)) (Some [7]))
     = Some (Inr (Some [10, 20, 30])) \<and>
   Count insertionSort offsetHeap 1 = Some (Inr 3)"
proof -
  have scan: "SliceStreamer_scan insertionSort offsetHeap 1 = Some (Inr [10, 20, 30])"
    by (simp add: SliceStreamer_scan_def streamerList.simps offsetHeap_def rootNode_def
          childNode_def getData_def applyStage_def sortStage_def window_def)
  have "OfSlice emptyHeap (Arg (TSlice intType) [10, 20, 30]) = Inr (rootHeap [10, 20, 30], 0)"
    by (simp add: OfSlice_def emptyHeap_def newSliceStreamer_def rootNode_def rootHeap_def)
  moreover have "SliceStreamer_Offset (rootHeap [10, 20, 30]) 0 5 = Inr (offsetHeap, 1)"
    by (simp add: SliceStreamer_Offset_def newSliceStreamer_def rootNode_def offsetHeap_def
          rootHeap_def childNode_def)
  moreover have "Scan insertionSort offsetHeap 1 (Arg (TPtr (TSlice intType)) (Some [7]))
     = Some (Inr (Some [10, 20, 30]))"
    using scan by (simp add: Scan_def afterScan_def offsetHeap_def childNode_def)
  moreover have "Count insertionSort offsetHeap 1 = Some (Inr 3)"
    using scan by (simp add: Count_def afterScan_def)
  ultimately show ?thesis using scan by simp
qed


section \<open>First, Last and IndexAt\<close>

text \<open>
  Claim C5 says that \<^verbatim>\<open>Last\<close> on a pipeline whose evaluated sequence is empty returns
  false.  The code calls \<^verbatim>\<open>indexAt(len(scanResult)-1, ...)\<close>, whose only guard is
  \<^verbatim>\<open>len(scanResult) <= index\<close>: with the index \<open>-1\<close> the guard does not hold and
  \<^verbatim>\<open>scanResult[-1]\<close> panics.  On the filter of the tests that lets no element pass,
  \<^verbatim>\<open>First\<close> returns false and leaves the destination as it is, and \<^verbatim>\<open>Last\<close> panics, as
  does \<^verbatim>\<open>IndexAt\<close> with a negative index.
\<close>

theorem Last_on_empty_result:
  "SliceStreamer_Filter (rootHeap [10, 20, 30]) 0 [Arg (TFunc [intType] [TBool]) notFound]
     = Inr (notFoundHeap, 1) \<and>
   SliceStreamer_scan insertionSort notFoundHeap 1 = Some (Inr []) \<and>
   First insertionSort notFoundHeap 1 (Arg (TPtr intType) 7) = Some (Inr (False, 7)) \<and>
   Last insertionSort notFoundHeap 1 (Arg (TPtr intType) 7)
     = Some (Inl (RuntimePanic IndexOutOfRange)) \<and>
   IndexAt insertionSort notFoundHeap 1 (- 1) (Arg (TPtr intType) 7)
     = Some (Inl (RuntimePanic IndexOutOfRange))"
proof -
  have scan: "SliceStreamer_scan insertionSort notFoundHeap 1 = Some (Inr [])"
    by (simp add: SliceStreamer_scan_def streamerList.simps notFoundHeap_def rootNode_def
          childNode_def getData_def applyStage_def sortStage_def window_def
          SliceStreamer_filter_def forkJoin_def batches_def batchBounds_def joinWorkers_def
          concatSlots_def notFound_def)
  have ty: "curType (slices notFoundHeap ! 1) = intType"
    by (simp add: notFoundHeap_def childNode_def)
  have "SliceStreamer_Filter (rootHeap [10, 20, 30]) 0 [Arg (TFunc [intType] [TBool]) notFound]
     = Inr (notFoundHeap, 1)"
    by (simp add: SliceStreamer_Filter_def checkOp_def newSliceStreamer_def rootNode_def
          notFoundHeap_def rootHeap_def childNode_def)
  moreover have "First insertionSort notFoundHeap 1 (Arg (TPtr intType) 7) = Some (Inr (False, 7))"
    using scan ty by (simp add: First_def checkResultPtr_def afterScan_def indexAt_def)
  moreover have "Last insertionSort notFoundHeap 1 (Arg (TPtr intType) 7)
     = Some (Inl (RuntimePanic IndexOutOfRange))"
    using scan ty by (simp add: Last_def checkResultPtr_def afterScan_def indexAt_def)
  moreover have "IndexAt insertionSort notFoundHeap 1 (- 1) (Arg (TPtr intType) 7)
     = Some (Inl (RuntimePanic IndexOutOfRange))"
    using scan ty by (simp add: IndexAt_def checkResultPtr_def afterScan_def indexAt_def)
  ultimately show ?thesis using scan by simp
qed

section \<open>Builder calls and the receiver\<close>

lemma newSliceStreamer_allocates:
  "lastStreamer node = Some streamer \<Longrightarrow>
   allocatesChildOf h streamer (newSliceStreamer h node)"
  by (simp add: allocatesChildOf_def newSliceStreamer_def)

lemma Filter_allocates:
  "SliceStreamer_Filter h streamer filters = Inr res \<Longrightarrow> allocatesChildOf h streamer res"
  by (auto simp: SliceStreamer_Filter_def Let_def newSliceStreamer_allocates split: sum.splits)

lemma Map_allocates:
  "SliceStreamer_Map h streamer mapper = Inr res \<Longrightarrow> allocatesChildOf h streamer res"
  by (auto simp: SliceStreamer_Map_def Let_def newSliceStreamer_allocates split: sum.splits)

lemma FlatMap_allocates:
  "SliceStreamer_FlatMap h streamer flatMapper = Inr res \<Longrightarrow> allocatesChildOf h streamer res"
  by (auto simp: SliceStreamer_FlatMap_def Let_def newSliceStreamer_allocates
           split: sum.splits rtype.splits)

lemma Sorted_allocates:
  "SliceStreamer_Sorted h streamer sorter = Inr res \<Longrightarrow> allocatesChildOf h streamer res"
  by (auto simp: SliceStreamer_Sorted_def Let_def newSliceStreamer_allocates
           split: goarg.splits rtype.splits if_splits)

lemma Offset_allocates:
  "SliceStreamer_Offset h streamer n = Inr res \<Longrightarrow> allocatesChildOf h streamer res"
  by (auto simp: SliceStreamer_Offset_def Let_def newSliceStreamer_allocates split: if_splits)

lemma Limit_allocates:
  "SliceStreamer_Limit h streamer n = Inr res \<Longrightarrow> allocatesChildOf h streamer res"
  by (auto simp: SliceStreamer_Limit_def Let_def newSliceStreamer_allocates split: if_splits)

lemma clampParallel_range:
  "1 \<le> numCPU \<Longrightarrow> 1 \<le> clampParallel numCPU p \<and> clampParallel numCPU p \<le> 2 * numCPU"
  by (auto simp: clampParallel_def Let_def)

lemma Parallel_in_place:
  assumes "streamer < length (slices h)"
    and "SliceStreamer_Parallel numCPU h streamer p = (h', r)"
  shows "r = streamer \<and> length (slices h') = length (slices h) \<and> maps h' = maps h \<and>
         (\<forall>a. a \<noteq> streamer \<longrightarrow> slices h' ! a = slices h ! a) \<and>
         slices h' ! streamer = (slices h ! streamer)\<lparr>parallel := clampParallel numCPU p\<rparr>"
  using assms by (auto simp: SliceStreamer_Parallel_def)

text \<open>
  Claim C3, as amended.  For a receiver that is an allocated node: \<^verbatim>\<open>Filter\<close>, \<^verbatim>\<open>Map\<close>,
  \<^verbatim>\<open>FlatMap\<close>, \<^verbatim>\<open>Sorted\<close>, \<^verbatim>\<open>Offset\<close> and \<^verbatim>\<open>Limit\<close>, when their checks pass, allocate
  a new node whose parent is the receiver and leave every node of the heap, the receiver
  among them, as it was.  \<^verbatim>\<open>Parallel\<close> allocates nothing: it returns the receiver,
  whose parallelism it has overwritten with the clamped argument (in \<open>[1, 2 * numCPU]\<close>);
  the other fields of the receiver and all other nodes are as they were.
\<close>

theorem builders_allocate_Parallel_in_place:
  assumes "streamer < length (slices h)"
  shows
    "(SliceStreamer_Filter h streamer filters = Inr res1 \<longrightarrow> allocatesChildOf h streamer res1) \<and>
     (SliceStreamer_Map h streamer mapper = Inr res2 \<longrightarrow> allocatesChildOf h streamer res2) \<and>
     (SliceStreamer_FlatMap h streamer flatMapper = Inr res3 \<longrightarrow> allocatesChildOf h streamer res3) \<and>
     (SliceStreamer_Sorted h streamer sorter = Inr res4 \<longrightarrow> allocatesChildOf h streamer res4) \<and>
     (SliceStreamer_Offset h streamer n = Inr res5 \<longrightarrow> allocatesChildOf h streamer res5) \<and>
     (SliceStreamer_Limit h streamer n = Inr res6 \<longrightarrow> allocatesChildOf h streamer res6) \<and>
     (SliceStreamer_Parallel numCPU h streamer p = (h', r) \<longrightarrow>
        r = streamer \<and> length (slices h') = length (slices h) \<and> maps h' = maps h \<and>
        (\<forall>a. a \<noteq> streamer \<longrightarrow> slices h' ! a = slices h ! a) \<and>
        slices h' ! streamer = (slices h ! streamer)\<lparr>parallel := clampParallel numCPU p\<rparr> \<and>
        (1 \<le> numCPU \<longrightarrow>
           1 \<le> clampParallel numCPU p \<and> clampParallel numCPU p \<le> 2 * numCPU))"
  using Parallel_in_place [OF assms, of numCPU p h' r] clampParallel_range [of numCPU p]
  by (simp add: Filter_allocates Map_allocates FlatMap_allocates Sorted_allocates
        Offset_allocates Limit_allocates)

text \<open>
  Claim C3 as stated fails for \<^verbatim>\<open>Parallel\<close>: on a root of parallelism 1,
  \<^verbatim>\<open>Parallel(3)\<close> (with 4 CPUs) returns the root itself, now of parallelism 3, and the
  heap has no new node.
\<close>

theorem Parallel_mutates_receiver:
  "SliceStreamer_Parallel 4 (rootHeap [10, 20, 30]) 0 3
     = (\<lparr>slices = [(rootNode [10, 20, 30])\<lparr>parallel := 3\<rparr>], maps = []\<rparr>, 0) \<and>
   parallel (slices (rootHeap [10, 20, 30]) ! 0) = 1 \<and>
   \<not> allocatesChildOf (rootHeap [10, 20, 30]) 0
        (SliceStreamer_Parallel 4 (rootHeap [10, 20, 30]) 0 3)"
  by (simp add: SliceStreamer_Parallel_def rootHeap_def rootNode_def clampParallel_def
        allocatesChildOf_def)

theorem builders_allocate_Parallel_in_place_witness:
  "0 < length (slices (rootHeap [10, 20, 30])) \<and>
   SliceStreamer_Offset (rootHeap [10, 20, 30]) 0 5 = Inr (offsetHeap, 1) \<and>
   allocatesChildOf (rootHeap [10, 20, 30]) 0 (offsetHeap, 1) \<and>
   slices offsetHeap ! 0 = slices (rootHeap [10, 20, 30]) ! 0 \<and>
   lastStreamer (slices offsetHeap ! 1) = Some 0"
proof -
  have v: "0 < length (slices (rootHeap [10, 20, 30]))"
    by (simp add: rootHeap_def)
  have o: "SliceStreamer_Offset (rootHeap [10, 20, 30]) 0 5 = Inr (offsetHeap, 1)"
    by (simp add: SliceStreamer_Offset_def newSliceStreamer_def rootNode_def offsetHeap_def
          rootHeap_def childNode_def)
  from builders_allocate_Parallel_in_place [OF v, where n = 5 and ?res5.0 = "(offsetHeap, 1)"] o
  have a: "allocatesChildOf (rootHeap [10, 20, 30]) 0 (offsetHeap, 1)"
    by blast
  have "slices offsetHeap ! 0 = slices (rootHeap [10, 20, 30]) ! 0"
    by (simp add: offsetHeap_def rootHeap_def)
  moreover from a have "lastStreamer (slices offsetHeap ! 1) = Some 0"
    by (simp add: allocatesChildOf_def rootHeap_def)
  ultimately show ?thesis using v o a by simp
qed

section \<open>Reduce\<close>

lemma reduceLoop_total: "reduceLoop (\<lambda>a b. Inr (g a b)) baseVal xs = Inr (foldl g baseVal xs)"
  by (induction xs arbitrary: baseVal) simp_all

lemma reduceData_cases:
  "reduceData fv iv [] = Inr iv"
  "reduceData fv iv [x] = Inr x"
  "2 \<le> length data \<Longrightarrow> reduceData (\<lambda>a b. Inr (g a b)) iv data = Inr (foldl g iv data)"
  by (simp_all add: reduceData_def reduceLoop_total)

lemma Reduce_checked:
  "cur = curType (slices h ! streamer) \<Longrightarrow>
   Reduce srt h streamer (Arg (TFunc [cur, cur] [cur]) fv) (Arg (TPtr cur) iv)
     = reduce srt h streamer fv iv"
  by (simp add: Reduce_def checkResultPtr_def)

lemma scan_rootHeap: "SliceStreamer_scan srt (rootHeap xs) 0 = Some (Inr xs)"
  by (simp add: SliceStreamer_scan_def streamerList.simps rootHeap_def rootNode_def getData_def
        applyStage_def sortStage_def window_def)

text \<open>
  Claim C6.  Let the pipeline evaluate to \<open>data\<close>, and let the accumulator and the result
  pointer pass the checks of \<^verbatim>\<open>Reduce\<close>.  When \<open>data\<close> is empty the result variable keeps
  its content \<open>iv\<close>.  When \<open>data\<close> is the single element \<open>x\<close> the result is \<open>x\<close>, whatever
  the accumulator is (it is not called, so even one that always panics does no harm).
  When \<open>data\<close> has two or more elements the result is the left fold of the accumulator over
  \<open>data\<close> that starts from the content \<open>iv\<close> of the result variable.
\<close>

theorem Reduce_policy:
  assumes "SliceStreamer_scan srt h streamer = Some (Inr data)"
    and "cur = curType (slices h ! streamer)"
  shows
    "(data = [] \<longrightarrow>
        Reduce srt h streamer (Arg (TFunc [cur, cur] [cur]) fv) (Arg (TPtr cur) iv)
          = Some (Inr iv)) \<and>
     (\<forall>x. data = [x] \<longrightarrow>
        Reduce srt h streamer (Arg (TFunc [cur, cur] [cur]) fv) (Arg (TPtr cur) iv)
          = Some (Inr x)) \<and>
     (2 \<le> length data \<longrightarrow>
        Reduce srt h streamer (Arg (TFunc [cur, cur] [cur]) (\<lambda>a b. Inr (g a b)))
          (Arg (TPtr cur) iv)
          = Some (Inr (foldl g iv data)))"
  using assms
  by (simp add: Reduce_checked reduce_def afterScan_def reduceData_cases)

theorem Reduce_policy_witness:
  "SliceStreamer_scan insertionSort (rootHeap [15, 15, 20, 25]) 0 = Some (Inr [15, 15, 20, 25]) \<and>
   intType = curType (slices (rootHeap [15, 15, 20, 25]) ! 0) \<and>
   Reduce insertionSort (rootHeap [15, 15, 20, 25]) 0
     (Arg (TFunc [intType, intType] [intType]) (\<lambda>a b. Inr (a + b))) (Arg (TPtr intType) 1000)
     = Some (Inr 1075) \<and>
   Reduce insertionSort (rootHeap [15]) 0
     (Arg (TFunc [intType, intType] [intType]) (\<lambda>a b. Inl ''never called''))
     (Arg (TPtr intType) 1000)
     = Some (Inr 15) \<and>
   Reduce insertionSort (rootHeap []) 0
     (Arg (TFunc [intType, intType] [intType]) (\<lambda>a b. Inr (a + b))) (Arg (TPtr intType) 1000)
     = Some (Inr 1000)"
proof -
  have ty: "\<And>xs. intType = curType (slices (rootHeap xs) ! 0)"
    by (simp add: rootHeap_def rootNode_def)
  have "Reduce insertionSort (rootHeap [15, 15, 20, 25]) 0
     (Arg (TFunc [intType, intType] [intType]) (\<lambda>a b. Inr (a + b))) (Arg (TPtr intType) 1000)
     = Some (Inr 1075)"
    using Reduce_policy [OF scan_rootHeap [where xs = "[15, 15, 20, 25]"] ty, where g = "(+)" and iv = 1000]
    by simp
  moreover have "Reduce insertionSort (rootHeap [15]) 0
     (Arg (TFunc [intType, intType] [intType]) (\<lambda>a b. Inl ''never called''))
     (Arg (TPtr intType) 1000)
     = Some (Inr 15)"
    using Reduce_policy [OF scan_rootHeap [where xs = "[15]"] ty]
    by simp
  moreover have "Reduce insertionSort (rootHeap []) 0
     (Arg (TFunc [intType, intType] [intType]) (\<lambda>a b. Inr (a + b))) (Arg (TPtr intType) 1000)
     = Some (Inr 1000)"
    using Reduce_policy [OF scan_rootHeap [where xs = "[]"] ty]
    by simp
  ultimately show ?thesis using scan_rootHeap ty by simp
qed

section \<open>Merging the maps of the workers\<close>

lemma mergeGroup_assoc:
  "mergeGroup (mergeGroup a b) c = mergeGroup a (mergeGroup b c)"
  by (rule ext) (simp add: mergeGroup_def split: option.splits)

lemma mergeGroup_empty [simp]:
  "mergeGroup m Map.empty = m" "mergeGroup Map.empty m = m"
  by (rule ext, simp add: mergeGroup_def split: option.splits)+

lemma groupOf_Nil [simp]: "groupOf keyer [] = Map.empty"
  by (simp add: groupOf_def)

lemma groupOf_append:
  "groupOf keyer (xs @ ys) = mergeGroup (groupOf keyer xs) (groupOf keyer ys)"
  by (rule ext) (simp add: groupOf_def mergeGroup_def)

lemma groupWorker_step:
  "keyer x = Inr key \<Longrightarrow>
   m(key \<mapsto> (case m key of None \<Rightarrow> [] | Some valList \<Rightarrow> valList) @ [x])
     = mergeGroup m (groupOf keyer [x])"
  by (rule ext) (auto simp: groupOf_def mergeGroup_def split: option.splits)

lemma groupWorker_Inr:
  "(groupWorker keyer xs m0 = Inr m) =
     (list_all (\<lambda>x. \<not> isl (keyer x)) xs \<and> m = mergeGroup m0 (groupOf keyer xs))"
proof (induction xs arbitrary: m0)
  case Nil
  show ?case by auto
next
  case (Cons x xs)
  show ?case
  proof (cases "keyer x")
    case (Inl e)
    then show ?thesis by simp
  next
    case (Inr key)
    have "groupOf keyer (x # xs) = mergeGroup (groupOf keyer [x]) (groupOf keyer xs)"
      using groupOf_append [of keyer "[x]" xs] by simp
    moreover have "m0(key \<mapsto> (case m0 key of None \<Rightarrow> [] | Some valList \<Rightarrow> valList) @ [x])
                     = mergeGroup m0 (groupOf keyer [x])"
      using Inr by (rule groupWorker_step)
    ultimately show ?thesis
      using Inr Cons.IH [of "mergeGroup m0 (groupOf keyer [x])"]
      by (simp add: mergeGroup_assoc)
  qed
qed

lemma foldl_mergeGroup:
  "foldl mergeGroup val (map (groupOf keyer) bs) = mergeGroup val (groupOf keyer (concat bs))"
  by (induction bs arbitrary: val) (simp_all add: groupOf_append mergeGroup_assoc)

lemma mergeToMap_map_add: "mergeToMap a b = a ++ b"
  by (rule ext) (simp add: mergeToMap_def map_add_def)

lemma lastOf_Nil [simp]: "lastOf keyer [] = Map.empty"
  by (simp add: lastOf_def)

lemma lastOf_append:
  "lastOf keyer (xs @ ys) = lastOf keyer xs ++ lastOf keyer ys"
  by (rule ext) (simp add: lastOf_def map_add_def)

lemma toMapWorker_step:
  "keyer x = Inr key \<Longrightarrow> m(key \<mapsto> x) = m ++ lastOf keyer [x]"
  by (rule ext) (auto simp: lastOf_def map_add_def)

lemma toMapWorker_Inr:
  "(toMapWorker keyer xs m0 = Inr m) =
     (list_all (\<lambda>x. \<not> isl (keyer x)) xs \<and> m = m0 ++ lastOf keyer xs)"
proof (induction xs arbitrary: m0)
  case Nil
  show ?case by auto
next
  case (Cons x xs)
  show ?case
  proof (cases "keyer x")
    case (Inl e)
    then show ?thesis by simp
  next
    case (Inr key)
    have "lastOf keyer (x # xs) = lastOf keyer [x] ++ lastOf keyer xs"
      using lastOf_append [of keyer "[x]" xs] by simp
    moreover have "m0(key \<mapsto> x) = m0 ++ lastOf keyer [x]"
      using Inr by (rule toMapWorker_step)
    ultimately show ?thesis
      using Inr Cons.IH [of "m0 ++ lastOf keyer [x]"]
      by simp
  qed
qed

lemma foldl_mergeToMap:
  "foldl mergeToMap val (map (lastOf keyer) bs) = val ++ lastOf keyer (concat bs)"
  by (induction bs arbitrary: val) (simp_all add: lastOf_append mergeToMap_map_add)

lemma list_all_concat: "list_all (list_all P) bs = list_all P (concat bs)"
  by (induction bs) simp_all

lemma forkJoin_Inr:
  "(forkJoin k w data = Inr rs) =
     (1 \<le> k \<and> list_all (\<lambda>b. \<not> isl (w b)) (batches k data)
        \<and> rs = map (\<lambda>b. projr (w b)) (batches k data))"
  by (auto simp: forkJoin_def joinWorkers_map_Inr)

lemma forkJoinShared_forkJoin:
  "forkJoinShared sched k w data =
     (if sched = WritesCollide \<and> 2 \<le> k then Inl ConcurrentMapWrites else forkJoin k w data)"
  by (simp add: forkJoinShared_def forkJoin_def)

lemma forkJoinShared_Inr:
  "(forkJoinShared sched k w data = Inr rs) =
     (1 \<le> k \<and> (sched = WritesCollide \<longrightarrow> k = 1)
        \<and> list_all (\<lambda>b. \<not> isl (w b)) (batches k data)
        \<and> rs = map (\<lambda>b. projr (w b)) (batches k data))"
  by (auto simp: forkJoinShared_forkJoin forkJoin_Inr)

lemma foldl_mergeGroupStep_Inl: "foldl (mergeGroupStep et) (Inl e) ms = Inl e"
  by (induction ms) (simp_all add: mergeGroupStep_def)

lemma foldl_mergeGroupStep:
  "foldl (mergeGroupStep et) (Inr val) ms =
     (if Kind et \<noteq> KSlice \<and> (\<exists>m\<in>set ms. m \<noteq> Map.empty)
      then Inl (RuntimePanic ReflectPanic)
      else Inr (foldl mergeGroup val ms))"
  by (induction ms arbitrary: val) (auto simp: mergeGroupStep_def foldl_mergeGroupStep_Inl)

lemma groupOf_empty:
  assumes "list_all (\<lambda>x. \<not> isl (keyer x)) b"
  shows "(groupOf keyer b = Map.empty) = (b = [])"
proof (cases b)
  case Nil
  then show ?thesis by simp
next
  case (Cons x xs)
  with assms obtain c where c: "keyer x = Inr c"
    by (auto simp: isl_iff_no_Inr)
  with Cons have "groupOf keyer b c \<noteq> None"
    by (simp add: groupOf_def)
  then have "groupOf keyer b \<noteq> Map.empty"
    by auto
  with Cons show ?thesis by simp
qed

lemma groupBy_Inr:
  "(groupBy sched et s keyer data val = Inr m) =
     (1 \<le> parallel s \<and> (sched = WritesCollide \<longrightarrow> parallel s = 1)
        \<and> list_all (\<lambda>x. \<not> isl (keyer x)) data
        \<and> (data \<noteq> [] \<longrightarrow> Kind et = KSlice)
        \<and> m = mergeGroup val (groupOf keyer data))"
proof -
  let ?bs = "batches (parallel s) data"
  let ?w = "\<lambda>batch. groupWorker keyer batch Map.empty"
  have ok: "\<And>b. (\<not> isl (?w b)) = list_all (\<lambda>x. \<not> isl (keyer x)) b"
    using groupWorker_Inr [of keyer _ Map.empty] by (simp add: isl_iff_no_Inr)
  have val: "projr (?w b) = groupOf keyer b" if "\<not> isl (?w b)" for b
  proof -
    from that have "list_all (\<lambda>x. \<not> isl (keyer x)) b" by (simp add: ok)
    then have "?w b = Inr (groupOf keyer b)"
      using groupWorker_Inr [of keyer b Map.empty "groupOf keyer b"] by simp
    then show ?thesis by simp
  qed
  have all: "list_all (\<lambda>b. \<not> isl (?w b)) ?bs
               = list_all (\<lambda>x. \<not> isl (keyer x)) (concat ?bs)"
    by (simp add: ok list_all_concat)
  have vals: "list_all (\<lambda>b. \<not> isl (?w b)) ?bs \<Longrightarrow>
                map (\<lambda>b. projr (?w b)) ?bs = map (groupOf keyer) ?bs"
    by (simp add: list_all_iff val)
  show ?thesis
  proof (cases "forkJoinShared sched (parallel s) ?w data")
    case (Inl e)
    then have "\<not> (1 \<le> parallel s \<and> (sched = WritesCollide \<longrightarrow> parallel s = 1)
                 \<and> list_all (\<lambda>b. \<not> isl (?w b)) ?bs)"
      using forkJoinShared_Inr [of sched "parallel s" ?w data] by auto
    moreover have "1 \<le> parallel s \<Longrightarrow>
        list_all (\<lambda>b. \<not> isl (?w b)) ?bs = list_all (\<lambda>x. \<not> isl (keyer x)) data"
      using all by (simp add: concat_batches)
    ultimately show ?thesis using Inl by (auto simp: groupBy_def)
  next
    case (Inr rs)
    then have par: "1 \<le> parallel s" and sch: "sched = WritesCollide \<longrightarrow> parallel s = 1"
      and a: "list_all (\<lambda>b. \<not> isl (?w b)) ?bs" and r: "rs = map (\<lambda>b. projr (?w b)) ?bs"
      using forkJoinShared_Inr [of sched "parallel s" ?w data rs] by auto
    from par have c: "concat ?bs = data" by (rule concat_batches)
    from a r have rs: "rs = map (groupOf keyer) ?bs" by (simp add: vals)
    from a have tot: "list_all (\<lambda>x. \<not> isl (keyer x)) data" by (simp add: all c)
    have each: "\<And>b. b \<in> set ?bs \<Longrightarrow> (groupOf keyer b = Map.empty) = (b = [])"
      using a by (intro groupOf_empty) (simp add: list_all_iff ok)
    have "(\<exists>m\<in>set rs. m \<noteq> Map.empty) = (\<exists>b\<in>set ?bs. b \<noteq> [])"
      unfolding rs using each by auto
    also have "\<dots> = (concat ?bs \<noteq> [])" by auto
    finally have ne: "(\<exists>m\<in>set rs. m \<noteq> Map.empty) = (data \<noteq> [])" by (simp add: c)
    have "foldl mergeGroup val rs = mergeGroup val (groupOf keyer data)"
      by (simp add: rs foldl_mergeGroup c)
    with Inr have "groupBy sched et s keyer data val =
        (if Kind et \<noteq> KSlice \<and> data \<noteq> [] then Inl (RuntimePanic ReflectPanic)
         else Inr (mergeGroup val (groupOf keyer data)))"
      by (simp add: groupBy_def foldl_mergeGroupStep ne)
    with par sch tot show ?thesis by auto
  qed
qed

lemma toMap_Inr:
  "(toMap sched s keyer data val = Inr m) =
     (1 \<le> parallel s \<and> (sched = WritesCollide \<longrightarrow> parallel s = 1)
        \<and> list_all (\<lambda>x. \<not> isl (keyer x)) data \<and> m = val ++ lastOf keyer data)"
proof -
  let ?bs = "batches (parallel s) data"
  let ?w = "\<lambda>batch. toMapWorker keyer batch Map.empty"
  have ok: "\<And>b. (\<not> isl (?w b)) = list_all (\<lambda>x. \<not> isl (keyer x)) b"
    using toMapWorker_Inr [of keyer _ Map.empty] by (simp add: isl_iff_no_Inr)
  have val: "projr (?w b) = lastOf keyer b" if "\<not> isl (?w b)" for b
  proof -
    from that have "list_all (\<lambda>x. \<not> isl (keyer x)) b" by (simp add: ok)
    then have "?w b = Inr (lastOf keyer b)"
      using toMapWorker_Inr [of keyer b Map.empty "lastOf keyer b"] by simp
    then show ?thesis by simp
  qed
  have all: "list_all (\<lambda>b. \<not> isl (?w b)) ?bs
               = list_all (\<lambda>x. \<not> isl (keyer x)) (concat ?bs)"
    by (simp add: ok list_all_concat)
  have vals: "list_all (\<lambda>b. \<not> isl (?w b)) ?bs \<Longrightarrow>
                map (\<lambda>b. projr (?w b)) ?bs = map (lastOf keyer) ?bs"
    by (simp add: list_all_iff val)
  show ?thesis
  proof (cases "forkJoinShared sched (parallel s) ?w data")
    case (Inl e)
    then have "\<not> (1 \<le> parallel s \<and> (sched = WritesCollide \<longrightarrow> parallel s = 1)
                 \<and> list_all (\<lambda>b. \<not> isl (?w b)) ?bs)"
      using forkJoinShared_Inr [of sched "parallel s" ?w data] by auto
    moreover have "1 \<le> parallel s \<Longrightarrow>
        list_all (\<lambda>b. \<not> isl (?w b)) ?bs = list_all (\<lambda>x. \<not> isl (keyer x)) data"
      using all by (simp add: concat_batches)
    ultimately show ?thesis using Inl by (auto simp: toMap_def)
  next
    case (Inr rs)
    then have par: "1 \<le> parallel s" and sch: "sched = WritesCollide \<longrightarrow> parallel s = 1"
      and a: "list_all (\<lambda>b. \<not> isl (?w b)) ?bs" and r: "rs = map (\<lambda>b. projr (?w b)) ?bs"
      using forkJoinShared_Inr [of sched "parallel s" ?w data rs] by auto
    from par have c: "concat ?bs = data" by (rule concat_batches)
    from a r have rs: "rs = map (lastOf keyer) ?bs" by (simp add: vals)
    from a have tot: "list_all (\<lambda>x. \<not> isl (keyer x)) data" by (simp add: all c)
    from Inr have "toMap sched s keyer data val = Inr (val ++ lastOf keyer data)"
      by (simp add: toMap_def rs foldl_mergeToMap c)
    with par sch tot show ?thesis by auto
  qed
qed

lemma groupBy_collide:
  "2 \<le> parallel s \<Longrightarrow> groupBy WritesCollide et s keyer data val = Inl ConcurrentMapWrites"
  by (simp add: groupBy_def forkJoinShared_def)

lemma toMap_collide:
  "2 \<le> parallel s \<Longrightarrow> toMap WritesCollide s keyer data val = Inl ConcurrentMapWrites"
  by (simp add: toMap_def forkJoinShared_def)

lemma last_filter_index:
  "filter P xs \<noteq> [] \<Longrightarrow>
   \<exists>j<length xs. P (xs ! j) \<and> last (filter P xs) = xs ! j \<and>
      (\<forall>j'. j < j' \<and> j' < length xs \<longrightarrow> \<not> P (xs ! j'))"
proof (induction xs rule: rev_induct)
  case Nil
  then show ?case by simp
next
  case (snoc x xs)
  show ?case
  proof (cases "P x")
    case True
    then have "P ((xs @ [x]) ! length xs) \<and> last (filter P (xs @ [x])) = (xs @ [x]) ! length xs"
      by simp
    then show ?thesis by (intro exI [of _ "length xs"]) auto
  next
    case False
    with snoc.prems have "filter P xs \<noteq> []" by simp
    from snoc.IH [OF this] obtain j where j: "j < length xs" "P (xs ! j)"
      "last (filter P xs) = xs ! j" "\<forall>j'. j < j' \<and> j' < length xs \<longrightarrow> \<not> P (xs ! j')"
      by blast
    have "\<forall>j'. j < j' \<and> j' < length (xs @ [x]) \<longrightarrow> \<not> P ((xs @ [x]) ! j')"
    proof (intro allI impI)
      fix j' assume a: "j < j' \<and> j' < length (xs @ [x])"
      show "\<not> P ((xs @ [x]) ! j')"
      proof (cases "j' < length xs")
        case True
        with a j(4) show ?thesis by (simp add: nth_append)
      next
        case False
        with a have "j' = length xs" by simp
        with \<open>\<not> P x\<close> show ?thesis by simp
      qed
    qed
    with j False show ?thesis
      by (intro exI [of _ j]) (simp add: nth_append)
  qed
qed

lemma sum_mset_groups:
  assumes "finite K"
  shows "(\<forall>x\<in>set xs. \<exists>c\<in>K. keyer x = Inr c) \<Longrightarrow>
         (\<Sum>c\<in>K. mset (filter (\<lambda>x. keyer x = Inr c) xs)) = mset xs"
proof (induction xs)
  case Nil
  show ?case by simp
next
  case (Cons x xs)
  then obtain c0 where c0: "c0 \<in> K" "keyer x = Inr c0" by auto
  have "(\<Sum>c\<in>K. mset (filter (\<lambda>x. keyer x = Inr c) (x # xs)))
          = (\<Sum>c\<in>K. (if c = c0 then {#x#} else {#}) + mset (filter (\<lambda>x. keyer x = Inr c) xs))"
    by (rule sum.cong) (auto simp: c0)
  also have "\<dots> = (\<Sum>c\<in>K. if c = c0 then {#x#} else {#})
                    + (\<Sum>c\<in>K. mset (filter (\<lambda>x. keyer x = Inr c) xs))"
    by (rule sum.distrib)
  also have "(\<Sum>c\<in>K. if c = c0 then {#x#} else {#}) = {#x#}"
    using assms c0(1) by (simp add: sum.delta)
  finally show ?case using Cons by simp
qed

lemma keyer_total:
  "list_all (\<lambda>x. \<not> isl (keyer x)) data \<Longrightarrow> x \<in> set data \<Longrightarrow> \<exists>c. keyer x = Inr c"
  by (auto simp: list_all_iff isl_iff_no_Inr)

lemma dom_groupOf: "dom (groupOf keyer data) = {c. \<exists>x\<in>set data. keyer x = Inr c}"
  by (auto simp: groupOf_def dom_def filter_empty_conv split: if_splits)

lemma finite_dom_groupOf: "finite (dom (groupOf keyer data))"
proof -
  have "dom (groupOf keyer data) \<subseteq> projr ` keyer ` set data"
  proof
    fix c assume "c \<in> dom (groupOf keyer data)"
    then obtain x where x: "x \<in> set data" "keyer x = Inr c"
      by (auto simp: dom_groupOf)
    from x(1) have "keyer x \<in> keyer ` set data" by (rule imageI)
    then have "projr (keyer x) \<in> projr ` keyer ` set data" by (rule imageI)
    with x(2) show "c \<in> projr ` keyer ` set data" by simp
  qed
  then show ?thesis by (rule finite_subset) simp
qed

lemma the_groupOf:
  "c \<in> dom (groupOf keyer data) \<Longrightarrow>
   the (groupOf keyer data c) = filter (\<lambda>x. keyer x = Inr c) data"
  by (auto simp: groupOf_def dom_def split: if_splits)

section \<open>ToMap\<close>

text \<open>
  What \<^verbatim>\<open>toMap\<close> returns, when it returns: every element \<open>data ! i\<close> has a key, and the
  result binds that key to the element \<open>data ! j\<close> of the highest index \<open>j\<close> among the
  elements with that key (so \<open>i \<le> j\<close>, and no later element has the key).  The result is
  the destination overwritten, in ascending batch order, by the map of each worker, which
  is the last-wins map of its batch.  It returns when no key extraction panics and the
  assignments to the collection map do not collide.
\<close>

theorem toMap_highest_index_wins:
  assumes "toMap sched s keyer data val = Inr m"
  shows
    "(\<forall>i<length data. \<exists>key j.
        keyer (data ! i) = Inr key \<and> i \<le> j \<and> j < length data \<and>
        keyer (data ! j) = Inr key \<and> m key = Some (data ! j) \<and>
        (\<forall>j'. j < j' \<and> j' < length data \<longrightarrow> keyer (data ! j') \<noteq> Inr key)) \<and>
     m = foldl mergeToMap val (map (lastOf keyer) (batches (parallel s) data))"
proof -
  from assms have par: "1 \<le> parallel s" and tot: "list_all (\<lambda>x. \<not> isl (keyer x)) data"
    and m: "m = val ++ lastOf keyer data"
    by (simp_all add: toMap_Inr)
  have "\<exists>key j. keyer (data ! i) = Inr key \<and> i \<le> j \<and> j < length data \<and>
          keyer (data ! j) = Inr key \<and> m key = Some (data ! j) \<and>
          (\<forall>j'. j < j' \<and> j' < length data \<longrightarrow> keyer (data ! j') \<noteq> Inr key)"
    if i: "i < length data" for i
  proof -
    from tot i obtain key where key: "keyer (data ! i) = Inr key"
      using keyer_total [of keyer data "data ! i"] by auto
    let ?P = "\<lambda>x. keyer x = Inr key"
    from key i have ne: "filter ?P data \<noteq> []"
      by (auto simp: filter_empty_conv)
    from last_filter_index [OF ne] obtain j where j: "j < length data" "?P (data ! j)"
      "last (filter ?P data) = data ! j" "\<forall>j'. j < j' \<and> j' < length data \<longrightarrow> \<not> ?P (data ! j')"
      by blast
    have "i \<le> j"
    proof (rule ccontr)
      assume "\<not> i \<le> j"
      with i j(4) have "\<not> ?P (data ! i)" by simp
      with key show False by simp
    qed
    moreover have "m key = Some (data ! j)"
      using ne j(3) by (simp add: m lastOf_def map_add_def)
    ultimately show ?thesis using key j by blast
  qed
  moreover have "m = foldl mergeToMap val (map (lastOf keyer) (batches (parallel s) data))"
    by (simp add: m foldl_mergeToMap concat_batches [OF par])
  ultimately show ?thesis by blast
qed

section \<open>GroupBy\<close>

text \<open>
  What \<^verbatim>\<open>groupBy\<close> returns into an empty destination, when it returns: the group of a key
  is the subsequence of the elements with that key, in their original order (a key
  without element has no group); every element is in the group of its key and in no
  other group; the groups together, as multisets, are the evaluated sequence; and the
  result is the merge, in ascending batch order, of the groupings of the batches.
\<close>

theorem groupBy_partitions:
  assumes "groupBy sched et s keyer data Map.empty = Inr m"
  shows
    "(\<forall>c. m c = (if filter (\<lambda>x. keyer x = Inr c) data = [] then None
                  else Some (filter (\<lambda>x. keyer x = Inr c) data))) \<and>
     (\<forall>x\<in>set data. \<exists>c. keyer x = Inr c \<and> (\<exists>ys. m c = Some ys \<and> x \<in> set ys) \<and>
        (\<forall>c' ys. m c' = Some ys \<and> x \<in> set ys \<longrightarrow> c' = c)) \<and>
     finite (dom m) \<and>
     (\<Sum>c\<in>dom m. mset (the (m c))) = mset data \<and>
     m = foldl mergeGroup Map.empty (map (groupOf keyer) (batches (parallel s) data))"
proof -
  from assms have par: "1 \<le> parallel s" and tot: "list_all (\<lambda>x. \<not> isl (keyer x)) data"
    and m: "m = groupOf keyer data"
    by (simp_all add: groupBy_Inr)
  have groups: "\<forall>c. m c = (if filter (\<lambda>x. keyer x = Inr c) data = [] then None
                  else Some (filter (\<lambda>x. keyer x = Inr c) data))"
    by (simp add: m groupOf_def)
  have one: "\<exists>c. keyer x = Inr c \<and> (\<exists>ys. m c = Some ys \<and> x \<in> set ys) \<and>
        (\<forall>c' ys. m c' = Some ys \<and> x \<in> set ys \<longrightarrow> c' = c)" if x: "x \<in> set data" for x
  proof -
    from tot x obtain c where c: "keyer x = Inr c"
      using keyer_total [of keyer data x] by auto
    from c x have "filter (\<lambda>x. keyer x = Inr c) data \<noteq> []"
      by (auto simp: filter_empty_conv)
    with c x have "\<exists>ys. m c = Some ys \<and> x \<in> set ys"
      by (simp add: groups)
    moreover have "\<forall>c' ys. m c' = Some ys \<and> x \<in> set ys \<longrightarrow> c' = c"
      using c by (auto simp: groups split: if_splits)
    ultimately show ?thesis using c by blast
  qed
  have fin: "finite (dom m)"
    by (simp add: m finite_dom_groupOf)
  have "(\<Sum>c\<in>dom m. mset (the (m c)))
          = (\<Sum>c\<in>dom m. mset (filter (\<lambda>x. keyer x = Inr c) data))"
    by (rule sum.cong) (simp_all add: m the_groupOf)
  also have "\<dots> = mset data"
  proof (rule sum_mset_groups [OF fin])
    show "\<forall>x\<in>set data. \<exists>c\<in>dom m. keyer x = Inr c"
    proof
      fix x assume x: "x \<in> set data"
      with tot obtain c where c: "keyer x = Inr c"
        using keyer_total [of keyer data x] by auto
      with x have "c \<in> dom m" by (auto simp: m dom_groupOf)
      with c show "\<exists>c\<in>dom m. keyer x = Inr c" by blast
    qed
  qed
  finally have total: "(\<Sum>c\<in>dom m. mset (the (m c))) = mset data" .
  have "m = foldl mergeGroup Map.empty (map (groupOf keyer) (batches (parallel s) data))"
    by (simp add: m foldl_mergeGroup concat_batches [OF par])
  with groups one fin total show ?thesis by blast
qed

lemma checkOp_Inr: "checkOp cur (Arg kt fv) = Inr (op1, f) \<Longrightarrow> f = fv"
  by (auto simp: checkOp_def split: rtype.splits if_splits)

lemma checkResultMap_Inr:
  "checkResultMap op1 ok (Arg t dest) = Inr (et, val) \<Longrightarrow>
   val = (case dest of None \<Rightarrow> Map.empty | Some old \<Rightarrow> old)"
  by (auto simp: checkResultMap_def split: rtype.splits if_splits option.splits bool.splits)

lemma GroupBy_Inr:
  fixes h :: "('a, 'e) heap"
  assumes "SliceStreamer_scan srt h streamer = Some (Inr data)"
    and "GroupBy sched srt h streamer (Arg kt fv) (Arg t dest) = Some (Inr m)"
  shows "\<exists>et. groupBy sched et (slices h ! streamer) fv data
           (case dest of None \<Rightarrow> Map.empty | Some old \<Rightarrow> old) = Inr m"
proof -
  let ?s = "slices h ! streamer"
  from assms(2) have "\<exists>op1 f. (checkOp (curType ?s) (Arg kt fv) :: 'e error + rtype \<times> ('a \<Rightarrow> 'e + 'a)) = Inr (op1, f)"
    by (cases "checkOp (curType ?s) (Arg kt fv) :: 'e error + rtype \<times> ('a \<Rightarrow> 'e + 'a)")
       (auto simp: GroupBy_def Let_def)
  then obtain op1 f where
    c: "(checkOp (curType ?s) (Arg kt fv) :: 'e error + rtype \<times> ('a \<Rightarrow> 'e + 'a)) = Inr (op1, f)"
    by blast
  then have f: "f = fv" by (rule checkOp_Inr)
  from assms(2) c have
    "\<exists>et val. (checkResultMap op1 (elemOfElemIs (curType ?s)) (Arg t dest)
              :: 'e error + rtype \<times> ('a \<rightharpoonup> 'a list)) = Inr (et, val)"
    by (cases "checkResultMap op1 (elemOfElemIs (curType ?s)) (Arg t dest)
                 :: 'e error + rtype \<times> ('a \<rightharpoonup> 'a list)")
       (auto simp: GroupBy_def Let_def)
  then obtain et val where
    v: "(checkResultMap op1 (elemOfElemIs (curType ?s)) (Arg t dest)
           :: 'e error + rtype \<times> ('a \<rightharpoonup> 'a list)) = Inr (et, val)"
    by blast
  then have "val = (case dest of None \<Rightarrow> Map.empty | Some old \<Rightarrow> old)"
    by (rule checkResultMap_Inr)
  with assms c v f have "groupBy sched et ?s fv data
           (case dest of None \<Rightarrow> Map.empty | Some old \<Rightarrow> old) = Inr m"
    by (simp add: GroupBy_def Let_def afterScan_def)
  then show ?thesis ..
qed

lemma ToMap_Inr:
  fixes h :: "('a, 'e) heap"
  assumes "SliceStreamer_scan srt h streamer = Some (Inr data)"
    and "ToMap sched srt h streamer (Arg kt fv) (Arg t dest) = Some (Inr m)"
  shows "toMap sched (slices h ! streamer) fv data
           (case dest of None \<Rightarrow> Map.empty | Some old \<Rightarrow> old) = Inr m"
proof -
  let ?s = "slices h ! streamer"
  from assms(2) have "\<exists>op1 f. (checkOp (curType ?s) (Arg kt fv) :: 'e error + rtype \<times> ('a \<Rightarrow> 'e + 'a)) = Inr (op1, f)"
    by (cases "checkOp (curType ?s) (Arg kt fv) :: 'e error + rtype \<times> ('a \<Rightarrow> 'e + 'a)")
       (auto simp: ToMap_def Let_def)
  then obtain op1 f where
    c: "(checkOp (curType ?s) (Arg kt fv) :: 'e error + rtype \<times> ('a \<Rightarrow> 'e + 'a)) = Inr (op1, f)"
    by blast
  then have f: "f = fv" by (rule checkOp_Inr)
  from assms(2) c have
    "\<exists>et val. (checkResultMap op1 (\<lambda>elem. Some (elem = curType ?s)) (Arg t dest)
              :: 'e error + rtype \<times> ('a \<rightharpoonup> 'a)) = Inr (et, val)"
    by (cases "checkResultMap op1 (\<lambda>elem. Some (elem = curType ?s)) (Arg t dest)
                 :: 'e error + rtype \<times> ('a \<rightharpoonup> 'a)")
       (auto simp: ToMap_def Let_def)
  then obtain et val where
    v: "(checkResultMap op1 (\<lambda>elem. Some (elem = curType ?s)) (Arg t dest)
           :: 'e error + rtype \<times> ('a \<rightharpoonup> 'a)) = Inr (et, val)"
    by blast
  then have "val = (case dest of None \<Rightarrow> Map.empty | Some old \<Rightarrow> old)"
    by (rule checkResultMap_Inr)
  with assms c v f show ?thesis
    by (simp add: ToMap_def Let_def afterScan_def)
qed

lemma GroupBy_returns:
  assumes "SliceStreamer_scan srt h streamer = Some (Inr data)"
    and "list_all (\<lambda>x. \<not> isl (fv x)) data"
    and "1 \<le> parallel (slices h ! streamer)"
    and "sched = WritesCollide \<longrightarrow> parallel (slices h ! streamer) = 1"
  shows "GroupBy sched srt h streamer (Arg (TFunc [curType (slices h ! streamer)] [key]) fv)
           (Arg (TPtr (TMap key (TSlice (curType (slices h ! streamer))))) dest)
         = Some (Inr (mergeGroup (case dest of None \<Rightarrow> Map.empty | Some old \<Rightarrow> old)
                        (groupOf fv data)))"
  using assms
  by (cases dest)
     (simp_all add: GroupBy_def Let_def checkOp_def checkResultMap_def elemOfElemIs_def
        afterScan_def groupBy_Inr)

lemma ToMap_returns:
  assumes "SliceStreamer_scan srt h streamer = Some (Inr data)"
    and "list_all (\<lambda>x. \<not> isl (fv x)) data"
    and "1 \<le> parallel (slices h ! streamer)"
    and "sched = WritesCollide \<longrightarrow> parallel (slices h ! streamer) = 1"
  shows "ToMap sched srt h streamer (Arg (TFunc [curType (slices h ! streamer)] [key]) fv)
           (Arg (TPtr (TMap key (curType (slices h ! streamer)))) dest)
         = Some (Inr ((case dest of None \<Rightarrow> Map.empty | Some old \<Rightarrow> old) ++ lastOf fv data))"
  using assms
  by (cases dest)
     (simp_all add: ToMap_def Let_def checkOp_def checkResultMap_def afterScan_def toMap_Inr)

section \<open>The destination map of GroupBy and ToMap\<close>

text \<open>
  Claim C10.  Let the pipeline evaluate to \<open>data\<close>, and let \<^verbatim>\<open>GroupBy\<close> (or \<^verbatim>\<open>ToMap\<close>)
  return.  With a destination map of content \<open>old\<close>: a key without element in \<open>data\<close>
  keeps its entry of \<open>old\<close> (or stays absent); for a key with elements in \<open>data\<close>,
  \<^verbatim>\<open>GroupBy\<close> stores the list of \<open>old\<close> under that key (empty when absent) followed by the
  elements of that key in their order, and \<^verbatim>\<open>ToMap\<close> stores the last element of that
  key.  With a nil destination map the result is the grouping (the last-wins map) of
  \<open>data\<close> alone.  The calls do return, with this merge, for a keyer of the upstream type
  that does not panic and a pointer to a map from the keyer's result type to slices of
  the upstream type (for \<^verbatim>\<open>ToMap\<close>: to the upstream type), when the parallelism is at
  least 1 and the workers' assignments to the collection map do not collide.
\<close>

theorem GroupBy_ToMap_merge_into_destination:
  assumes "SliceStreamer_scan srt h streamer = Some (Inr data)"
  shows
    "(GroupBy sched srt h streamer (Arg kt fv) (Arg t (Some old)) = Some (Inr m) \<longrightarrow>
        (\<forall>c. m c =
           (if filter (\<lambda>x. fv x = Inr c) data = [] then old c
            else Some ((case old c of None \<Rightarrow> [] | Some valList \<Rightarrow> valList)
                       @ filter (\<lambda>x. fv x = Inr c) data)))) \<and>
     (GroupBy sched srt h streamer (Arg kt fv) (Arg t None) = Some (Inr m) \<longrightarrow>
        m = groupOf fv data) \<and>
     (ToMap sched srt h streamer (Arg kt fv) (Arg t' (Some old')) = Some (Inr m') \<longrightarrow>
        (\<forall>c. m' c =
           (if filter (\<lambda>x. fv x = Inr c) data = [] then old' c
            else Some (last (filter (\<lambda>x. fv x = Inr c) data))))) \<and>
     (ToMap sched srt h streamer (Arg kt fv) (Arg t' None) = Some (Inr m') \<longrightarrow>
        m' = lastOf fv data) \<and>
     (list_all (\<lambda>x. \<not> isl (fv x)) data \<and> 1 \<le> parallel (slices h ! streamer) \<and>
      (sched = WritesCollide \<longrightarrow> parallel (slices h ! streamer) = 1) \<longrightarrow>
        GroupBy sched srt h streamer (Arg (TFunc [curType (slices h ! streamer)] [key]) fv)
            (Arg (TPtr (TMap key (TSlice (curType (slices h ! streamer))))) dest)
          = Some (Inr (mergeGroup (case dest of None \<Rightarrow> Map.empty | Some old \<Rightarrow> old)
                         (groupOf fv data))) \<and>
        ToMap sched srt h streamer (Arg (TFunc [curType (slices h ! streamer)] [key]) fv)
            (Arg (TPtr (TMap key (curType (slices h ! streamer)))) dest')
          = Some (Inr ((case dest' of None \<Rightarrow> Map.empty | Some old \<Rightarrow> old)
                         ++ lastOf fv data)))"
proof (intro conjI impI)
  assume "GroupBy sched srt h streamer (Arg kt fv) (Arg t (Some old)) = Some (Inr m)"
  from GroupBy_Inr [OF assms this] have "m = mergeGroup old (groupOf fv data)"
    by (auto simp: groupBy_Inr)
  then show "\<forall>c. m c =
           (if filter (\<lambda>x. fv x = Inr c) data = [] then old c
            else Some ((case old c of None \<Rightarrow> [] | Some valList \<Rightarrow> valList)
                       @ filter (\<lambda>x. fv x = Inr c) data))"
    by (simp add: mergeGroup_def groupOf_def)
next
  assume "GroupBy sched srt h streamer (Arg kt fv) (Arg t None) = Some (Inr m)"
  from GroupBy_Inr [OF assms this] show "m = groupOf fv data"
    by (auto simp: groupBy_Inr)
next
  assume "ToMap sched srt h streamer (Arg kt fv) (Arg t' (Some old')) = Some (Inr m')"
  from ToMap_Inr [OF assms this] have "m' = old' ++ lastOf fv data"
    by (simp add: toMap_Inr)
  then show "\<forall>c. m' c =
           (if filter (\<lambda>x. fv x = Inr c) data = [] then old' c
            else Some (last (filter (\<lambda>x. fv x = Inr c) data)))"
    by (simp add: map_add_def lastOf_def)
next
  assume "ToMap sched srt h streamer (Arg kt fv) (Arg t' None) = Some (Inr m')"
  from ToMap_Inr [OF assms this] show "m' = lastOf fv data"
    by (simp add: toMap_Inr)
next
  assume a: "list_all (\<lambda>x. \<not> isl (fv x)) data \<and> 1 \<le> parallel (slices h ! streamer) \<and>
      (sched = WritesCollide \<longrightarrow> parallel (slices h ! streamer) = 1)"
  then show "GroupBy sched srt h streamer (Arg (TFunc [curType (slices h ! streamer)] [key]) fv)
            (Arg (TPtr (TMap key (TSlice (curType (slices h ! streamer))))) dest)
          = Some (Inr (mergeGroup (case dest of None \<Rightarrow> Map.empty | Some old \<Rightarrow> old)
                         (groupOf fv data)))"
    using GroupBy_returns [OF assms] by blast
next
  assume a: "list_all (\<lambda>x. \<not> isl (fv x)) data \<and> 1 \<le> parallel (slices h ! streamer) \<and>
      (sched = WritesCollide \<longrightarrow> parallel (slices h ! streamer) = 1)"
  then show "ToMap sched srt h streamer (Arg (TFunc [curType (slices h ! streamer)] [key]) fv)
            (Arg (TPtr (TMap key (curType (slices h ! streamer)))) dest')
          = Some (Inr ((case dest' of None \<Rightarrow> Map.empty | Some old \<Rightarrow> old)
                         ++ lastOf fv data))"
    using ToMap_returns [OF assms] by blast
qed

lemma rootHeap_node: "slices (rootHeap xs) ! 0 = rootNode xs"
  by (simp add: rootHeap_def)

lemma scan_parallelRootHeap:
  "SliceStreamer_scan srt (parallelRootHeap xs) 0 = Some (Inr xs)"
  by (simp add: SliceStreamer_scan_def streamerList.simps parallelRootHeap_def
        SliceStreamer_Parallel_def rootHeap_def rootNode_def getData_def
        applyStage_def sortStage_def window_def)

lemma parallelRootHeap_node:
  "slices (parallelRootHeap xs) ! 0 = (rootNode xs)\<lparr>parallel := 2\<rparr>"
  by (simp add: parallelRootHeap_def SliceStreamer_Parallel_def rootHeap_def clampParallel_def)

theorem toMap_highest_index_wins_witness:
  "toMap WritesInTurn (demoStage\<lparr>parallel := 3\<rparr>) lastDigit [15, 16, 20, 25, 36, 40, 45]
       Map.empty
     = Inr (lastOf lastDigit [15, 16, 20, 25, 36, 40, 45]) \<and>
   lastOf lastDigit [15, 16, 20, 25, 36, 40, 45] 5 = Some 45 \<and>
   lastOf lastDigit [15, 16, 20, 25, 36, 40, 45] 6 = Some 36 \<and>
   lastOf lastDigit [15, 16, 20, 25, 36, 40, 45] 0 = Some 40 \<and>
   lastOf lastDigit [15, 16, 20, 25, 36, 40, 45] 7 = None \<and>
   foldl mergeToMap Map.empty
     (map (lastOf lastDigit) (batches 3 [15, 16, 20, 25, 36, 40, 45])) 5 = Some 45"
proof -
  let ?D = "[15, 16, 20, 25, 36, 40, 45] :: int list"
  have e: "toMap WritesInTurn (demoStage\<lparr>parallel := 3\<rparr>) lastDigit ?D Map.empty
             = Inr (lastOf lastDigit ?D)"
    by (simp add: toMap_Inr lastDigit_def)
  from toMap_highest_index_wins [OF e]
  have f: "lastOf lastDigit ?D
             = foldl mergeToMap Map.empty (map (lastOf lastDigit) (batches 3 ?D))"
    by simp
  have v: "lastOf lastDigit ?D 5 = Some 45" "lastOf lastDigit ?D 6 = Some 36"
    "lastOf lastDigit ?D 0 = Some 40" "lastOf lastDigit ?D 7 = None"
    by (simp_all add: lastOf_def lastDigit_def)
  from f v(1) have "foldl mergeToMap Map.empty (map (lastOf lastDigit) (batches 3 ?D)) 5 = Some 45"
    by simp
  with e v show ?thesis by simp
qed

theorem groupBy_partitions_witness:
  "groupBy WritesInTurn (TSlice intType) (demoStage\<lparr>parallel := 3\<rparr>) lastDigit
       [15, 16, 20, 25, 36, 40, 45] Map.empty
     = Inr (groupOf lastDigit [15, 16, 20, 25, 36, 40, 45]) \<and>
   groupOf lastDigit [15, 16, 20, 25, 36, 40, 45] 5 = Some [15, 25, 45] \<and>
   groupOf lastDigit [15, 16, 20, 25, 36, 40, 45] 6 = Some [16, 36] \<and>
   groupOf lastDigit [15, 16, 20, 25, 36, 40, 45] 0 = Some [20, 40] \<and>
   groupOf lastDigit [15, 16, 20, 25, 36, 40, 45] 7 = None \<and>
   (\<Sum>c\<in>dom (groupOf lastDigit [15, 16, 20, 25, 36, 40, 45]).
        mset (the (groupOf lastDigit [15, 16, 20, 25, 36, 40, 45] c)))
     = mset [15, 16, 20, 25, 36, 40, 45]"
proof -
  let ?D = "[15, 16, 20, 25, 36, 40, 45] :: int list"
  have e: "groupBy WritesInTurn (TSlice intType) (demoStage\<lparr>parallel := 3\<rparr>) lastDigit ?D
               Map.empty
             = Inr (groupOf lastDigit ?D)"
    by (simp add: groupBy_Inr lastDigit_def)
  from groupBy_partitions [OF e]
  have s: "(\<Sum>c\<in>dom (groupOf lastDigit ?D). mset (the (groupOf lastDigit ?D c))) = mset ?D"
    by blast
  have v: "groupOf lastDigit ?D 5 = Some [15, 25, 45]" "groupOf lastDigit ?D 6 = Some [16, 36]"
    "groupOf lastDigit ?D 0 = Some [20, 40]" "groupOf lastDigit ?D 7 = None"
    by (simp_all add: groupOf_def lastDigit_def)
  from e s v show ?thesis by simp
qed

theorem GroupBy_ToMap_merge_into_destination_witness:
  "SliceStreamer_scan insertionSort (parallelRootHeap [15, 16, 20, 25, 36]) 0
     = Some (Inr [15, 16, 20, 25, 36]) \<and>
   parallel (slices (parallelRootHeap [15, 16, 20, 25, 36]) ! 0) = 2 \<and>
   GroupBy WritesInTurn insertionSort (parallelRootHeap [15, 16, 20, 25, 36]) 0
       (Arg (TFunc [intType] [intType]) lastDigit)
       (Arg (TPtr (TMap intType (TSlice intType))) (Some [5 \<mapsto> [7], 3 \<mapsto> [9]]))
     = Some (Inr (mergeGroup [5 \<mapsto> [7], 3 \<mapsto> [9]] (groupOf lastDigit [15, 16, 20, 25, 36]))) \<and>
   mergeGroup [5 \<mapsto> [7], 3 \<mapsto> [9]] (groupOf lastDigit [15, 16, 20, 25, 36]) 5
     = Some [7, 15, 25] \<and>
   mergeGroup [5 \<mapsto> [7], 3 \<mapsto> [9]] (groupOf lastDigit [15, 16, 20, 25, 36]) 3 = Some [9] \<and>
   mergeGroup [5 \<mapsto> [7], 3 \<mapsto> [9]] (groupOf lastDigit [15, 16, 20, 25, 36]) 6
     = Some [16, 36] \<and>
   ToMap WritesInTurn insertionSort (parallelRootHeap [15, 16, 20, 25, 36]) 0
       (Arg (TFunc [intType] [intType]) lastDigit)
       (Arg (TPtr (TMap intType intType)) (Some [5 \<mapsto> 7, 3 \<mapsto> 9]))
     = Some (Inr ([5 \<mapsto> 7, 3 \<mapsto> 9] ++ lastOf lastDigit [15, 16, 20, 25, 36])) \<and>
   ([5 \<mapsto> 7, 3 \<mapsto> 9] ++ lastOf lastDigit [15, 16, 20, 25, 36]) 5 = Some 25 \<and>
   ([5 \<mapsto> 7, 3 \<mapsto> 9] ++ lastOf lastDigit [15, 16, 20, 25, 36]) 3 = Some 9"
proof -
  let ?D = "[15, 16, 20, 25, 36] :: int list"
  let ?h = "parallelRootHeap ?D"
  let ?old = "[5 \<mapsto> [7], 3 \<mapsto> [9 :: int]] :: int \<rightharpoonup> int list"
  let ?old' = "[5 \<mapsto> 7, 3 \<mapsto> 9] :: int \<rightharpoonup> int"
  have scan: "SliceStreamer_scan insertionSort ?h 0 = Some (Inr ?D)"
    by (rule scan_parallelRootHeap)
  have node: "parallel (slices ?h ! 0) = 2" "curType (slices ?h ! 0) = intType"
    by (simp_all add: parallelRootHeap_node rootNode_def)
  have tot: "list_all (\<lambda>x. \<not> isl (lastDigit x)) ?D"
    by (simp add: lastDigit_def)
  note th = GroupBy_ToMap_merge_into_destination [OF scan, where sched = WritesInTurn
      and fv = lastDigit and kt = "TFunc [intType] [intType]" and key = intType
      and t = "TPtr (TMap intType (TSlice intType))" and t' = "TPtr (TMap intType intType)"
      and old = ?old and old' = ?old' and dest = "Some ?old" and dest' = "Some ?old'"
      and m = "mergeGroup ?old (groupOf lastDigit ?D)"
      and m' = "?old' ++ lastOf lastDigit ?D"]
  from th tot node have g: "GroupBy WritesInTurn insertionSort ?h 0
       (Arg (TFunc [intType] [intType]) lastDigit)
       (Arg (TPtr (TMap intType (TSlice intType))) (Some ?old))
     = Some (Inr (mergeGroup ?old (groupOf lastDigit ?D)))"
    by simp
  from th tot node have t: "ToMap WritesInTurn insertionSort ?h 0
       (Arg (TFunc [intType] [intType]) lastDigit)
       (Arg (TPtr (TMap intType intType)) (Some ?old'))
     = Some (Inr (?old' ++ lastOf lastDigit ?D))"
    by simp
  from th g
  have gm: "\<forall>c. mergeGroup ?old (groupOf lastDigit ?D) c =
           (if filter (\<lambda>x. lastDigit x = Inr c) ?D = [] then ?old c
            else Some ((case ?old c of None \<Rightarrow> [] | Some valList \<Rightarrow> valList)
                       @ filter (\<lambda>x. lastDigit x = Inr c) ?D))"
    by blast
  from th t
  have tm: "\<forall>c. (?old' ++ lastOf lastDigit ?D) c =
           (if filter (\<lambda>x. lastDigit x = Inr c) ?D = [] then ?old' c
            else Some (last (filter (\<lambda>x. lastDigit x = Inr c) ?D)))"
    by blast
  have "mergeGroup ?old (groupOf lastDigit ?D) 5 = Some [7, 15, 25]"
    "mergeGroup ?old (groupOf lastDigit ?D) 3 = Some [9]"
    "mergeGroup ?old (groupOf lastDigit ?D) 6 = Some [16, 36]"
    by (simp_all add: gm lastDigit_def)
  moreover have "(?old' ++ lastOf lastDigit ?D) 5 = Some 25"
    "(?old' ++ lastOf lastDigit ?D) 3 = Some 9"
    by (simp_all add: tm lastDigit_def)
  ultimately show ?thesis using scan node g t by simp
qed

text \<open>
  The check of \<^verbatim>\<open>GroupBy\<close> on the destination looks at \<^verbatim>\<open>rt.Elem().Elem()\<close> only, so it
  lets a \<^verbatim>\<open>map[int]*int\<close> pass for a pipeline of \<^verbatim>\<open>int\<close>.  The merge then panics in
  \<^verbatim>\<open>reflect.MakeSlice\<close> at the first key; with no element to merge the call returns and
  the destination keeps its content.
\<close>

lemma GroupBy_destination_of_pointers:
  "GroupBy sched insertionSort (rootHeap [15, 16]) 0
       (Arg (TFunc [intType] [intType]) lastDigit)
       (Arg (TPtr (TMap intType (TPtr intType))) (Some Map.empty))
     = Some (Inl (RuntimePanic ReflectPanic)) \<and>
   GroupBy sched insertionSort (rootHeap []) 0
       (Arg (TFunc [intType] [intType]) lastDigit)
       (Arg (TPtr (TMap intType (TPtr intType))) (Some old))
     = Some (Inr old)"
proof -
  have "groupBy sched (TPtr intType) (rootNode [15, 16]) lastDigit [15, 16] Map.empty
          = Inl (RuntimePanic ReflectPanic)"
    by (simp add: groupBy_def forkJoinShared_def rootNode_def batches_def batchBounds_def
          joinWorkers_def mergeGroupStep_def lastDigit_def)
  moreover have "groupBy sched (TPtr intType) (rootNode []) lastDigit [] old = Inr old"
    by (simp add: groupBy_Inr rootNode_def)
  ultimately show ?thesis
    using scan_rootHeap [of insertionSort "[15, 16]"] scan_rootHeap [of insertionSort "[]"]
    by (simp add: GroupBy_def checkOp_def checkResultMap_def elemOfElemIs_def afterScan_def
          rootHeap_node rootNode_def)
qed

section \<open>The collection map of the workers\<close>

lemma scan_threeWorkersHeap:
  "SliceStreamer_scan srt (threeWorkersHeap xs) 0 = Some (Inr xs)"
  by (simp add: SliceStreamer_scan_def streamerList.simps threeWorkersHeap_def
        SliceStreamer_Parallel_def rootHeap_def rootNode_def getData_def
        applyStage_def sortStage_def window_def)

lemma threeWorkersHeap_node:
  "slices (threeWorkersHeap xs) ! 0 = (rootNode xs)\<lparr>parallel := 3\<rparr>"
  by (simp add: threeWorkersHeap_def SliceStreamer_Parallel_def rootHeap_def clampParallel_def)

text \<open>
  Claim C7 says that \<^verbatim>\<open>ToMap\<close> produces, for every evaluated sequence, the map that binds
  each key to the element of the highest index with that key.  The workers of \<^verbatim>\<open>toMap\<close>
  put their maps into one Go map, \<^verbatim>\<open>resultCollection[goroutineID] = curGoroutineMap\<close>,
  without a lock (the comment at its declaration takes the distinct keys for enough,
  and the elementwise stages use a slice there).  With a parallelism of 2 or more the
  assignments can collide, and the runtime then stops the process instead of letting
  \<^verbatim>\<open>ToMap\<close> produce the map: on \<^verbatim>\<open>OfSlice([]int{15, 16, 20, 25, 36, 40, 45}).Parallel(3)\<close> with
  the last digit as the key and a nil map behind the pointer, \<^verbatim>\<open>ToMap\<close> ends in
  \<^verbatim>\<open>fatal error: concurrent map writes\<close> when they collide.  When they do not, and with
  the parallelism 1 under every schedule, it returns the map of the claim.
\<close>

theorem ToMap_concurrent_map_writes:
  "OfSlice emptyHeap (Arg (TSlice intType) [15, 16, 20, 25, 36, 40, 45])
     = Inr (rootHeap [15, 16, 20, 25, 36, 40, 45], 0) \<and>
   SliceStreamer_Parallel 4 (rootHeap [15, 16, 20, 25, 36, 40, 45]) 0 3
     = (threeWorkersHeap [15, 16, 20, 25, 36, 40, 45], 0) \<and>
   parallel (slices (threeWorkersHeap [15, 16, 20, 25, 36, 40, 45]) ! 0) = 3 \<and>
   SliceStreamer_scan insertionSort (threeWorkersHeap [15, 16, 20, 25, 36, 40, 45]) 0
     = Some (Inr [15, 16, 20, 25, 36, 40, 45]) \<and>
   ToMap WritesCollide insertionSort (threeWorkersHeap [15, 16, 20, 25, 36, 40, 45]) 0
       (Arg (TFunc [intType] [intType]) lastDigit) (Arg (TPtr (TMap intType intType)) None)
     = Some (Inl ConcurrentMapWrites) \<and>
   ToMap WritesInTurn insertionSort (threeWorkersHeap [15, 16, 20, 25, 36, 40, 45]) 0
       (Arg (TFunc [intType] [intType]) lastDigit) (Arg (TPtr (TMap intType intType)) None)
     = Some (Inr (lastOf lastDigit [15, 16, 20, 25, 36, 40, 45])) \<and>
   ToMap WritesCollide insertionSort (rootHeap [15, 16, 20, 25, 36, 40, 45]) 0
       (Arg (TFunc [intType] [intType]) lastDigit) (Arg (TPtr (TMap intType intType)) None)
     = Some (Inr (lastOf lastDigit [15, 16, 20, 25, 36, 40, 45])) \<and>
   lastOf lastDigit [15, 16, 20, 25, 36, 40, 45] 5 = Some 45 \<and>
   lastOf lastDigit [15, 16, 20, 25, 36, 40, 45] 6 = Some 36 \<and>
   lastOf lastDigit [15, 16, 20, 25, 36, 40, 45] 0 = Some 40"
proof -
  let ?D = "[15, 16, 20, 25, 36, 40, 45] :: int list"
  let ?K = "Arg (TFunc [intType] [intType]) lastDigit"
  let ?R = "Arg (TPtr (TMap intType intType)) None :: (int \<rightharpoonup> int) option goarg"
  have build: "OfSlice emptyHeap (Arg (TSlice intType) ?D) = Inr (rootHeap ?D, 0)"
    by (simp add: OfSlice_def emptyHeap_def newSliceStreamer_def rootNode_def rootHeap_def)
  have par: "SliceStreamer_Parallel 4 (rootHeap ?D) 0 3 = (threeWorkersHeap ?D, 0)"
    by (simp add: threeWorkersHeap_def SliceStreamer_Parallel_def)
  have three: "parallel (slices (threeWorkersHeap ?D) ! 0) = 3"
    by (simp add: threeWorkersHeap_node)
  have scan3: "SliceStreamer_scan insertionSort (threeWorkersHeap ?D) 0 = Some (Inr ?D)"
    by (rule scan_threeWorkersHeap)
  have scan1: "SliceStreamer_scan insertionSort (rootHeap ?D) 0 = Some (Inr ?D)"
    by (rule scan_rootHeap)
  have collide: "ToMap WritesCollide insertionSort (threeWorkersHeap ?D) 0 ?K ?R
                   = Some (Inl ConcurrentMapWrites)"
    using scan3
    by (simp add: ToMap_def checkOp_def checkResultMap_def afterScan_def
          threeWorkersHeap_node rootNode_def toMap_collide)
  have turn: "ToMap WritesInTurn insertionSort (threeWorkersHeap ?D) 0 ?K ?R
                = Some (Inr (lastOf lastDigit ?D))"
    using scan3
    by (simp add: ToMap_def checkOp_def checkResultMap_def afterScan_def
          threeWorkersHeap_node rootNode_def toMap_Inr lastDigit_def)
  have one: "ToMap WritesCollide insertionSort (rootHeap ?D) 0 ?K ?R
               = Some (Inr (lastOf lastDigit ?D))"
    using scan1
    by (simp add: ToMap_def checkOp_def checkResultMap_def afterScan_def
          rootHeap_node rootNode_def toMap_Inr lastDigit_def)
  have v: "lastOf lastDigit ?D 5 = Some 45" "lastOf lastDigit ?D 6 = Some 36"
    "lastOf lastDigit ?D 0 = Some 40"
    by (simp_all add: lastOf_def lastDigit_def)
  from build par three scan3 collide turn one v show ?thesis by simp
qed

text \<open>
  Claim C8 says that \<^verbatim>\<open>GroupBy\<close> produces, for every evaluated sequence, the partition of
  its elements into the groups of their keys.  The workers of \<^verbatim>\<open>groupBy\<close> share the
  collection map as those of \<^verbatim>\<open>toMap\<close> do: on
  \<^verbatim>\<open>OfSlice([]int{15, 16, 20, 25, 36, 40, 45}).Parallel(3)\<close> with the last digit as the key
  and an empty \<^verbatim>\<open>map[int][]int\<close> behind the pointer, \<^verbatim>\<open>GroupBy\<close> ends in
  \<^verbatim>\<open>fatal error: concurrent map writes\<close> when the assignments collide.  When they do
  not, and with the parallelism 1 under every schedule, it returns the groups
  \<open>[15, 25, 45]\<close>, \<open>[16, 36]\<close> and \<open>[20, 40]\<close> of the claim.
\<close>

theorem GroupBy_concurrent_map_writes:
  "SliceStreamer_Parallel 4 (rootHeap [15, 16, 20, 25, 36, 40, 45]) 0 3
     = (threeWorkersHeap [15, 16, 20, 25, 36, 40, 45], 0) \<and>
   parallel (slices (threeWorkersHeap [15, 16, 20, 25, 36, 40, 45]) ! 0) = 3 \<and>
   SliceStreamer_scan insertionSort (threeWorkersHeap [15, 16, 20, 25, 36, 40, 45]) 0
     = Some (Inr [15, 16, 20, 25, 36, 40, 45]) \<and>
   GroupBy WritesCollide insertionSort (threeWorkersHeap [15, 16, 20, 25, 36, 40, 45]) 0
       (Arg (TFunc [intType] [intType]) lastDigit)
       (Arg (TPtr (TMap intType (TSlice intType))) (Some Map.empty))
     = Some (Inl ConcurrentMapWrites) \<and>
   GroupBy WritesInTurn insertionSort (threeWorkersHeap [15, 16, 20, 25, 36, 40, 45]) 0
       (Arg (TFunc [intType] [intType]) lastDigit)
       (Arg (TPtr (TMap intType (TSlice intType))) (Some Map.empty))
     = Some (Inr (groupOf lastDigit [15, 16, 20, 25, 36, 40, 45])) \<and>
   GroupBy WritesCollide insertionSort (rootHeap [15, 16, 20, 25, 36, 40, 45]) 0
       (Arg (TFunc [intType] [intType]) lastDigit)
       (Arg (TPtr (TMap intType (TSlice intType))) (Some Map.empty))
     = Some (Inr (groupOf lastDigit [15, 16, 20, 25, 36, 40, 45])) \<and>
   groupOf lastDigit [15, 16, 20, 25, 36, 40, 45] 5 = Some [15, 25, 45] \<and>
   groupOf lastDigit [15, 16, 20, 25, 36, 40, 45] 6 = Some [16, 36] \<and>
   groupOf lastDigit [15, 16, 20, 25, 36, 40, 45] 0 = Some [20, 40]"
proof -
  let ?D = "[15, 16, 20, 25, 36, 40, 45] :: int list"
  let ?K = "Arg (TFunc [intType] [intType]) lastDigit"
  let ?R = "Arg (TPtr (TMap intType (TSlice intType))) (Some Map.empty)
              :: (int \<rightharpoonup> int list) option goarg"
  have par: "SliceStreamer_Parallel 4 (rootHeap ?D) 0 3 = (threeWorkersHeap ?D, 0)"
    by (simp add: threeWorkersHeap_def SliceStreamer_Parallel_def)
  have three: "parallel (slices (threeWorkersHeap ?D) ! 0) = 3"
    by (simp add: threeWorkersHeap_node)
  have scan3: "SliceStreamer_scan insertionSort (threeWorkersHeap ?D) 0 = Some (Inr ?D)"
    by (rule scan_threeWorkersHeap)
  have scan1: "SliceStreamer_scan insertionSort (rootHeap ?D) 0 = Some (Inr ?D)"
    by (rule scan_rootHeap)
  have collide: "GroupBy WritesCollide insertionSort (threeWorkersHeap ?D) 0 ?K ?R
                   = Some (Inl ConcurrentMapWrites)"
    using scan3
    by (simp add: GroupBy_def checkOp_def checkResultMap_def elemOfElemIs_def afterScan_def
          threeWorkersHeap_node rootNode_def groupBy_collide)
  have turn: "GroupBy WritesInTurn insertionSort (threeWorkersHeap ?D) 0 ?K ?R
                = Some (Inr (groupOf lastDigit ?D))"
    using scan3
    by (simp add: GroupBy_def checkOp_def checkResultMap_def elemOfElemIs_def afterScan_def
          threeWorkersHeap_node rootNode_def groupBy_Inr lastDigit_def)
  have one: "GroupBy WritesCollide insertionSort (rootHeap ?D) 0 ?K ?R
               = Some (Inr (groupOf lastDigit ?D))"
    using scan1
    by (simp add: GroupBy_def checkOp_def checkResultMap_def elemOfElemIs_def afterScan_def
          rootHeap_node rootNode_def groupBy_Inr lastDigit_def)
  have v: "groupOf lastDigit ?D 5 = Some [15, 25, 45]" "groupOf lastDigit ?D 6 = Some [16, 36]"
    "groupOf lastDigit ?D 0 = Some [20, 40]"
    by (simp_all add: groupOf_def lastDigit_def)
  from par three scan3 collide turn one v show ?thesis by simp
qed

section \<open>Chains\<close>

lemma streamerList_isChain:
  assumes "streamerList parent h p = Some sl"
  shows "isChain parent h p sl"
proof (rule streamerList.raw_induct [where P = isChain, OF _ assms])
  fix walk :: "('a \<Rightarrow> addr option) \<Rightarrow> 'a list \<Rightarrow> addr option \<Rightarrow> 'a list option"
    and parent h p sl
  assume IH: "\<And>parent h p sl. walk parent h p = Some sl \<Longrightarrow> isChain parent h p sl"
    and eq: "(case p of
                None \<Rightarrow> Some []
              | Some a \<Rightarrow>
                  if a < length h
                  then Option.bind (walk parent h (parent (h ! a))) (\<lambda>rest. Some (h ! a # rest))
                  else None) = Some sl"
  show "isChain parent h p sl"
  proof (cases p)
    case None
    with eq show ?thesis by simp
  next
    case (Some a)
    with eq have a: "a < length h" by (simp split: if_splits)
    with eq Some obtain rest where rest: "walk parent h (parent (h ! a)) = Some rest"
      and sl: "sl = h ! a # rest"
      by (auto simp: bind_eq_Some_conv)
    from IH [OF rest] a sl Some show ?thesis by simp
  qed
qed

lemma isChain_streamerList:
  "isChain parent h p sl \<Longrightarrow> streamerList parent h p = Some sl"
proof (induction sl arbitrary: p)
  case Nil
  then show ?case by (simp add: streamerList.simps)
next
  case (Cons n rest)
  then obtain a where a: "p = Some a" "a < length h" "n = h ! a"
    "isChain parent h (parent n) rest"
    by (auto split: option.splits)
  from Cons.IH [OF a(4)] a show ?case
    by (subst streamerList.simps) simp
qed

lemma streamerList_iff: "(streamerList parent h p = Some sl) = isChain parent h p sl"
  using streamerList_isChain isChain_streamerList by blast

lemma isChain_map:
  assumes "\<And>n. parent' (g n) = parent n"
  shows "isChain parent h p sl \<Longrightarrow> isChain parent' (map g h) p (map g sl)"
  by (induction sl arbitrary: p) (auto simp: assms split: option.splits)

lemma isChain_hd:
  "isChain parent h (Some a) sl \<Longrightarrow> sl \<noteq> [] \<and> hd sl = h ! a \<and> a < length h"
  by (cases sl) auto

section \<open>Filter stages\<close>

lemma isFilter_True: "(isFilter fs x = Inr True) = list_all (\<lambda>f. f x = Inr True) fs"
  by (induction fs) (auto split: sum.splits)

lemma filterWorker_Inr:
  "filterWorker fs xs = Inr r \<Longrightarrow> r = filter (\<lambda>x. isFilter fs x = Inr True) xs"
proof (induction xs arbitrary: r)
  case Nil
  then show ?case by simp
next
  case (Cons x xs)
  then show ?case
    by (auto split: sum.splits if_splits)
qed

lemma forkJoin_not_positive:
  "\<not> 1 \<le> k \<Longrightarrow> concatSlots (forkJoin k w data) \<noteq> Inr r"
  by (auto simp: forkJoin_def concatSlots_def)

lemma MapStreamer_filter_Inr:
  assumes "MapStreamer_filter s data = Inr r"
  shows "r = filter (passesFilters s) data"
proof (cases "mFilterFunc s")
  case None
  with assms show ?thesis by (simp add: MapStreamer_filter_def passesFilters_def)
next
  case (Some fs)
  show ?thesis
  proof (cases "fs = []")
    case True
    with assms Some show ?thesis by (simp add: MapStreamer_filter_def passesFilters_def)
  next
    case False
    with assms Some have c:
      "concatSlots (forkJoin (mParallel s) (filterWorker (map case_prod fs)) data) = Inr r"
      by (simp add: MapStreamer_filter_def)
    then have "1 \<le> mParallel s"
      using forkJoin_not_positive by blast
    with c have "filterWorker (map case_prod fs) data = Inr r"
      by (simp add: forkJoin_sequential sequentialWorker_filter)
    then have "r = filter (\<lambda>p. isFilter (map case_prod fs) p = Inr True) data"
      by (rule filterWorker_Inr)
    moreover have "\<And>p. (isFilter (map case_prod fs) p = Inr True) = passesFilters s p"
      by (simp add: isFilter_True passesFilters_def Some list_all_iff case_prod_beta)
    ultimately show ?thesis by simp
  qed
qed

lemma MapStreamer_filterLoop_Inr:
  "MapStreamer_filterLoop stages data = Inr r \<Longrightarrow>
   r = filter (\<lambda>p. list_all (\<lambda>s. passesFilters s p) stages) data"
proof (induction stages arbitrary: data)
  case Nil
  then show ?case by simp
next
  case (Cons s rest)
  let ?step = "if mFilterFunc s \<noteq> None then MapStreamer_filter s data else Inr data"
  from Cons.prems obtain d where d: "?step = Inr d" and r: "MapStreamer_filterLoop rest d = Inr r"
    by (cases ?step) auto
  have "d = filter (passesFilters s) data"
  proof (cases "mFilterFunc s")
    case None
    with d show ?thesis by (simp add: passesFilters_def)
  next
    case (Some fs)
    with d show ?thesis by (simp add: MapStreamer_filter_Inr)
  qed
  with Cons.IH [OF r] show ?case
    by (simp add: conj_commute)
qed

lemma MapStreamer_filter_withoutMapFuncs:
  "MapStreamer_filter (s\<lparr>mMapFunc := None, mFlatMapFunc := None\<rparr>) data
     = MapStreamer_filter s data"
  by (simp add: MapStreamer_filter_def split: option.splits)

lemma MapStreamer_filterLoop_withoutMapFuncs:
  "MapStreamer_filterLoop (map (\<lambda>s. s\<lparr>mMapFunc := None, mFlatMapFunc := None\<rparr>) stages) data
     = MapStreamer_filterLoop stages data"
  by (induction stages arbitrary: data)
     (simp_all add: MapStreamer_filter_withoutMapFuncs split: sum.splits)

section \<open>KeysToStream and ValuesToStream\<close>

lemma projectToStream_chain:
  assumes "streamerList mLastStreamer (maps h) (Some streamer) = Some sl"
  shows "projectToStream field fieldType h streamer =
           Some (case MapStreamer_filterLoop (rev sl) (pairData (last sl)) of
                   Inl e \<Rightarrow> Inl e
                 | Inr newData \<Rightarrow>
                     Inr (h\<lparr>slices := slices h
                              @ [projectedRoot (map field newData) (mParallel (maps h ! streamer))
                                   (fieldType (maps h ! streamer))]\<rparr>,
                          length (slices h)))"
proof -
  from assms have "isChain mLastStreamer (maps h) (Some streamer) sl"
    by (rule streamerList_isChain)
  then have "hd sl = maps h ! streamer"
    using isChain_hd by blast
  with assms show ?thesis
    by (simp add: projectToStream_def newSliceStreamer_def projectedRoot_def
             split: sum.splits)
qed

lemma projectToStream_Inr:
  assumes "streamerList mLastStreamer (maps h) (Some streamer) = Some sl"
    and "projectToStream field fieldType h streamer = Some (Inr (h', new))"
  shows "new = length (slices h) \<and>
         h' = h\<lparr>slices := slices h
                  @ [projectedRoot
                       (map field (filter (\<lambda>p. list_all (\<lambda>s. passesFilters s p) sl)
                                          (pairData (last sl))))
                       (mParallel (maps h ! streamer)) (fieldType (maps h ! streamer))]\<rparr>"
proof -
  let ?loop = "MapStreamer_filterLoop (rev sl) (pairData (last sl))"
  from assms(2) obtain newData where n: "?loop = Inr newData"
    by (cases ?loop) (auto simp: projectToStream_chain [OF assms(1)])
  then have "newData = filter (\<lambda>p. list_all (\<lambda>s. passesFilters s p) (rev sl)) (pairData (last sl))"
    by (rule MapStreamer_filterLoop_Inr)
  then have "newData = filter (\<lambda>p. list_all (\<lambda>s. passesFilters s p) sl) (pairData (last sl))"
    by (simp add: list_all_iff)
  with assms(2) n show ?thesis
    by (auto simp: projectToStream_chain [OF assms(1)])
qed

lemma projectToStream_withoutMapFuncs:
  assumes "streamerList mLastStreamer (maps h) (Some streamer) = Some sl"
    and "\<And>s. fieldType (s\<lparr>mMapFunc := None, mFlatMapFunc := None\<rparr>) = fieldType s"
  shows "sliceSide (projectToStream field fieldType (withoutMapFuncs h) streamer)
           = sliceSide (projectToStream field fieldType h streamer)"
proof -
  let ?g = "\<lambda>s :: ('a, 'b) MapStreamer. s\<lparr>mMapFunc := None, mFlatMapFunc := None\<rparr>"
  from assms(1) have c: "isChain mLastStreamer (maps h) (Some streamer) sl"
    by (rule streamerList_isChain)
  then have ne: "sl \<noteq> []" and a: "streamer < length (maps h)"
    using isChain_hd by blast+
  from c have "isChain mLastStreamer (map ?g (maps h)) (Some streamer) (map ?g sl)"
    by (rule isChain_map [rotated]) simp
  then have c': "streamerList mLastStreamer (maps (withoutMapFuncs h)) (Some streamer)
                   = Some (map ?g sl)"
    by (simp add: withoutMapFuncs_def isChain_streamerList)
  have l: "pairData (last (map ?g sl)) = pairData (last sl)"
    using ne by (simp add: last_map)
  have n: "maps (withoutMapFuncs h) ! streamer = ?g (maps h ! streamer)"
    using a by (simp add: withoutMapFuncs_def)
  have s: "slices (withoutMapFuncs h) = slices h"
    by (simp add: withoutMapFuncs_def)
  show ?thesis
    unfolding projectToStream_chain [OF c'] projectToStream_chain [OF assms(1)]
    by (simp add: sliceSide_def l n s assms(2) rev_map MapStreamer_filterLoop_withoutMapFuncs
          split: sum.splits)
qed

lemma scan_projectedRoot:
  assumes "new = length (slices h)"
    and "slices h' = slices h @ [projectedRoot data k t]"
  shows "SliceStreamer_scan srt h' new = Some (Inr data)"
proof -
  have "isChain lastStreamer (slices h') (Some new) [projectedRoot data k t]"
    using assms by (simp add: projectedRoot_def)
  then have "streamerList lastStreamer (slices h') (Some new) = Some [projectedRoot data k t]"
    by (rule isChain_streamerList)
  then show ?thesis
    by (simp add: SliceStreamer_scan_def projectedRoot_def getData_def applyStage_def
          sortStage_def window_def)
qed

text \<open>
  Claim C9.  Let the receiver's chain be \<open>sl\<close>, ending in the root.  When \<^verbatim>\<open>KeysToStream\<close>
  returns, it has allocated one new root SliceStreamer whose data is the keys of those
  pairs of the root that pass the predicates of every filter stage of \<open>sl\<close>, in the
  order of the root's pairs; a scan of the new pipeline gives exactly these keys.
  \<^verbatim>\<open>ValuesToStream\<close> does the same with the values.  Removing the map and flat-map
  functions from every MapStreamer node changes nothing in the outcome of either call:
  the same panic, or the same new SliceStreamer.
\<close>

theorem KeysToStream_ValuesToStream_filters_only:
  assumes "streamerList mLastStreamer (maps h) (Some streamer) = Some sl"
  shows
    "(KeysToStream h streamer = Some (Inr (h', new)) \<longrightarrow>
        new = length (slices h) \<and>
        h' = h\<lparr>slices := slices h
                 @ [projectedRoot
                      (map fst (filter (\<lambda>p. list_all (\<lambda>s. passesFilters s p) sl)
                                       (pairData (last sl))))
                      (mParallel (maps h ! streamer)) (curKeyType (maps h ! streamer))]\<rparr> \<and>
        SliceStreamer_scan srt h' new =
          Some (Inr (map fst (filter (\<lambda>p. list_all (\<lambda>s. passesFilters s p) sl)
                                     (pairData (last sl)))))) \<and>
     (ValuesToStream h streamer = Some (Inr (h', new)) \<longrightarrow>
        new = length (slices h) \<and>
        h' = h\<lparr>slices := slices h
                 @ [projectedRoot
                      (map snd (filter (\<lambda>p. list_all (\<lambda>s. passesFilters s p) sl)
                                       (pairData (last sl))))
                      (mParallel (maps h ! streamer)) (curValueType (maps h ! streamer))]\<rparr> \<and>
        SliceStreamer_scan srt h' new =
          Some (Inr (map snd (filter (\<lambda>p. list_all (\<lambda>s. passesFilters s p) sl)
                                     (pairData (last sl)))))) \<and>
     sliceSide (KeysToStream (withoutMapFuncs h) streamer) = sliceSide (KeysToStream h streamer) \<and>
     sliceSide (ValuesToStream (withoutMapFuncs h) streamer)
       = sliceSide (ValuesToStream h streamer)"
proof (intro conjI impI)
  assume k: "KeysToStream h streamer = Some (Inr (h', new))"
  from projectToStream_Inr [OF assms k [unfolded KeysToStream_def]]
  show "new = length (slices h)"
    and "h' = h\<lparr>slices := slices h
                 @ [projectedRoot
                      (map fst (filter (\<lambda>p. list_all (\<lambda>s. passesFilters s p) sl)
                                       (pairData (last sl))))
                      (mParallel (maps h ! streamer)) (curKeyType (maps h ! streamer))]\<rparr>"
    by simp_all
  then show "SliceStreamer_scan srt h' new =
          Some (Inr (map fst (filter (\<lambda>p. list_all (\<lambda>s. passesFilters s p) sl)
                                     (pairData (last sl)))))"
    by (intro scan_projectedRoot) simp_all
next
  assume v: "ValuesToStream h streamer = Some (Inr (h', new))"
  from projectToStream_Inr [OF assms v [unfolded ValuesToStream_def]]
  show "new = length (slices h)"
    and "h' = h\<lparr>slices := slices h
                 @ [projectedRoot
                      (map snd (filter (\<lambda>p. list_all (\<lambda>s. passesFilters s p) sl)
                                       (pairData (last sl))))
                      (mParallel (maps h ! streamer)) (curValueType (maps h ! streamer))]\<rparr>"
    by simp_all
  then show "SliceStreamer_scan srt h' new =
          Some (Inr (map snd (filter (\<lambda>p. list_all (\<lambda>s. passesFilters s p) sl)
                                     (pairData (last sl)))))"
    by (intro scan_projectedRoot) simp_all
next
  show "sliceSide (KeysToStream (withoutMapFuncs h) streamer) = sliceSide (KeysToStream h streamer)"
    unfolding KeysToStream_def by (rule projectToStream_withoutMapFuncs [OF assms]) simp
next
  show "sliceSide (ValuesToStream (withoutMapFuncs h) streamer)
          = sliceSide (ValuesToStream h streamer)"
    unfolding ValuesToStream_def by (rule projectToStream_withoutMapFuncs [OF assms]) simp
qed

lemma pairsHeap_built:
  "OfMap emptyHeap (Arg (TMap intType intType) [(1, 10), (2, 20), (3, 30), (4, 40)])
     = Inr (\<lparr>slices = [], maps = [pairsRoot]\<rparr>, 0) \<and>
   MapStreamer_Filter \<lparr>slices = [], maps = [pairsRoot]\<rparr> 0
       [Arg (TFunc [intType, intType] [TBool]) evenKey]
     = Inr (\<lparr>slices = [], maps = take 2 (maps pairsHeap)\<rparr>, 1) \<and>
   MapStreamer_Map \<lparr>slices = [], maps = take 2 (maps pairsHeap)\<rparr> 1
       (Arg (TFunc [intType, intType] [intType]) keyPlusValue)
     = Inr (pairsHeap, 0)"
  by (simp add: OfMap_def MapStreamer_Filter_def MapStreamer_Map_def checkOp2_def
        newMapStreamer_def newSliceStreamer_def emptyHeap_def pairsRoot_def pairsHeap_def
        rootNode_def)

theorem KeysToStream_ValuesToStream_filters_only_witness:
  "streamerList mLastStreamer (maps pairsHeap) (Some 2)
     = Some [maps pairsHeap ! 2, maps pairsHeap ! 1, maps pairsHeap ! 0] \<and>
   KeysToStream pairsHeap 2
     = Some (Inr (pairsHeap\<lparr>slices := slices pairsHeap @ [projectedRoot [2, 4] 1 intType]\<rparr>, 1)) \<and>
   SliceStreamer_scan insertionSort
       (pairsHeap\<lparr>slices := slices pairsHeap @ [projectedRoot [2, 4] 1 intType]\<rparr>) 1
     = Some (Inr [2, 4]) \<and>
   ValuesToStream pairsHeap 2
     = Some (Inr (pairsHeap\<lparr>slices := slices pairsHeap @ [projectedRoot [20, 40] 1 intType]\<rparr>, 1)) \<and>
   SliceStreamer_scan insertionSort pairsHeap 0 = Some (Inr [22, 44])"
proof -
  let ?sl = "[maps pairsHeap ! 2, maps pairsHeap ! 1, maps pairsHeap ! 0]"
  have chain: "streamerList mLastStreamer (maps pairsHeap) (Some 2) = Some ?sl"
    by (simp add: streamerList.simps pairsHeap_def pairsRoot_def)
  have kept: "filter (\<lambda>p. list_all (\<lambda>s. passesFilters s p) ?sl) (pairData (last ?sl))
                = [(2, 20), (4, 40)]"
    by (simp add: passesFilters_def pairsHeap_def pairsRoot_def evenKey_def)
  have node: "mParallel (maps pairsHeap ! 2) = 1" "curKeyType (maps pairsHeap ! 2) = intType"
    "curValueType (maps pairsHeap ! 2) = intType"
    by (simp_all add: pairsHeap_def pairsRoot_def)
  have loop: "MapStreamer_filterLoop (rev ?sl) (pairData (last ?sl)) = Inr [(2, 20), (4, 40)]"
    by (simp add: pairsHeap_def pairsRoot_def MapStreamer_filter_def forkJoin_def batches_def
          batchBounds_def joinWorkers_def concatSlots_def evenKey_def)
  have k: "KeysToStream pairsHeap 2
     = Some (Inr (pairsHeap\<lparr>slices := slices pairsHeap @ [projectedRoot [2, 4] 1 intType]\<rparr>, 1))"
    unfolding KeysToStream_def projectToStream_chain [OF chain] loop
    by (simp add: node) (simp add: pairsHeap_def)
  have v: "ValuesToStream pairsHeap 2
     = Some (Inr (pairsHeap\<lparr>slices := slices pairsHeap @ [projectedRoot [20, 40] 1 intType]\<rparr>, 1))"
    unfolding ValuesToStream_def projectToStream_chain [OF chain] loop
    by (simp add: node) (simp add: pairsHeap_def)
  from KeysToStream_ValuesToStream_filters_only [OF chain, where srt = insertionSort and new = 1
      and h' = "pairsHeap\<lparr>slices := slices pairsHeap @ [projectedRoot [2, 4] 1 intType]\<rparr>"] k
  have "SliceStreamer_scan insertionSort
       (pairsHeap\<lparr>slices := slices pairsHeap @ [projectedRoot [2, 4] 1 intType]\<rparr>) 1
     = Some (Inr (map fst (filter (\<lambda>p. list_all (\<lambda>s. passesFilters s p) ?sl)
                                  (pairData (last ?sl)))))"
    by blast
  then have s: "SliceStreamer_scan insertionSort
       (pairsHeap\<lparr>slices := slices pairsHeap @ [projectedRoot [2, 4] 1 intType]\<rparr>) 1
     = Some (Inr [2, 4])"
    unfolding kept by simp
  have m: "SliceStreamer_scan insertionSort pairsHeap 0 = Some (Inr [22, 44])"
    by (simp add: SliceStreamer_scan_def streamerList.simps pairsHeap_def pairsRoot_def
          rootNode_def getData_def MapStreamer_scan_def MapStreamer_filter_def
          MapStreamer_map_def forkJoin_def batches_def batchBounds_def joinWorkers_def
          concatSlots_def evenKey_def keyPlusValue_def applyStage_def sortStage_def window_def)
  from chain k s v m show ?thesis by simp
qed

section \<open>Further properties of the stages and of the window\<close>

text \<open>
  The window that scan applies, for a leaf offset that is not negative: the slice starts
  at the offset when the offset is below the length of the transformed sequence, and at
  0 otherwise; it has \<open>limit\<close> elements when the limit is positive and that many are
  left, and all the rest otherwise.
\<close>

theorem window_of_scan:
  assumes "0 \<le> off"
  shows "window off lim d =
           Inr (take (if 0 < lim then nat lim else length d)
                  (drop (if off < int (length d) then nat off else 0) d))"
proof -
  let ?n = "int (length d)"
  let ?o = "if off < ?n then off else 0"
  have o: "0 \<le> ?o" "?o \<le> ?n" using assms by auto
  have "take (nat (if 0 < lim \<and> lim < ?n - ?o then lim else ?n - ?o)) (drop (nat ?o) d)
          = take (if 0 < lim then nat lim else length d) (drop (nat ?o) d)"
    using o by (auto simp: take_all_iff)
  moreover have "drop (nat ?o) d = drop (if off < ?n then nat off else 0) d"
    by simp
  ultimately show ?thesis
    using o by (simp add: window_def Let_def)
qed

theorem window_of_scan_witness:
  "(0::int) \<le> 1 \<and>
   window 1 2 [10, 20, 30, 40 :: int] = (Inr [20, 30] :: string error + int list) \<and>
   window 1 0 [10, 20, 30, 40 :: int] = (Inr [20, 30, 40] :: string error + int list) \<and>
   window 4 2 [10, 20, 30, 40 :: int] = (Inr [10, 20] :: string error + int list) \<and>
   window 9 0 [10, 20, 30, 40 :: int] = (Inr [10, 20, 30, 40] :: string error + int list)"
proof -
  have z: "(0::int) \<le> 1" "(0::int) \<le> 4" "(0::int) \<le> 9" by simp_all
  show ?thesis
    using window_of_scan [OF z(1), of 2 "[10, 20, 30, 40 :: int]"]
      window_of_scan [OF z(1), of 0 "[10, 20, 30, 40 :: int]"]
      window_of_scan [OF z(2), of 2 "[10, 20, 30, 40 :: int]"]
      window_of_scan [OF z(3), of 0 "[10, 20, 30, 40 :: int]"]
    by simp
qed

text \<open>
  Stages whose operations do not panic, with a parallelism of at least 1: the filter
  stage keeps exactly the elements on which every predicate is true, in their order; the
  map stage applies the mapper to each element, keeping order and length; the flat-map
  stage concatenates the results of the flat-mapper in the order of the elements.
\<close>

lemma filterWorker_total:
  "filterWorker (map (\<lambda>p x. Inr (p x)) ps) xs = Inr (filter (\<lambda>x. list_all (\<lambda>p. p x) ps) xs)"
proof -
  have f: "\<And>x. isFilter (map (\<lambda>p x. Inr (p x)) ps) x = Inr (list_all (\<lambda>p. p x) ps)"
    by (induction ps) simp_all
  show ?thesis by (induction xs) (simp_all add: f)
qed

lemma mapWorker_total: "mapWorker (\<lambda>x. Inr (g x)) xs = Inr (map g xs)"
  by (induction xs) simp_all

lemma flatMapWorker_total: "flatMapWorker (\<lambda>x. Inr (g x)) xs = Inr (concat (map g xs))"
  by (induction xs) simp_all

theorem stages_without_panics:
  assumes "1 \<le> parallel s"
  shows
    "(filterFunc s = Some (map (\<lambda>p x. Inr (p x)) ps) \<longrightarrow>
        SliceStreamer_filter s data = Inr (filter (\<lambda>x. list_all (\<lambda>p. p x) ps) data)) \<and>
     (mapFunc s = Some (\<lambda>x. Inr (g x)) \<longrightarrow>
        SliceStreamer_map s data = Inr (map g data) \<and>
        length (map g data) = length data \<and>
        (\<forall>i<length data. map g data ! i = g (data ! i))) \<and>
     (flatMapFunc s = Some (\<lambda>x. Inr (fm x)) \<longrightarrow>
        SliceStreamer_flatMap h s data = Some (Inr (concat (map fm data))))"
proof (intro conjI impI)
  assume "filterFunc s = Some (map (\<lambda>p x. Inr (p x)) ps)"
  then show "SliceStreamer_filter s data = Inr (filter (\<lambda>x. list_all (\<lambda>p. p x) ps) data)"
    using assms
    by (simp add: SliceStreamer_filter_def forkJoin_sequential sequentialWorker_filter
          filterWorker_total)
next
  assume "mapFunc s = Some (\<lambda>x. Inr (g x))"
  then show "SliceStreamer_map s data = Inr (map g data)"
    using assms
    by (simp add: SliceStreamer_map_def forkJoin_sequential sequentialWorker_map
          mapWorker_total)
next
  show "length (map g data) = length data" by simp
next
  show "\<forall>i<length data. map g data ! i = g (data ! i)" by simp
next
  assume "flatMapFunc s = Some (\<lambda>x. Inr (fm x))"
  then show "SliceStreamer_flatMap h s data = Some (Inr (concat (map fm data)))"
    using assms
    by (simp add: SliceStreamer_flatMap_def forkJoin_sequential sequentialWorker_flatMap
          flatMapWorker_total)
qed

theorem stages_without_panics_witness:
  "(1::int) \<le> parallel (demoStage\<lparr>parallel := 3, filterFunc := Some (map (\<lambda>p x. Inr (p x)) [\<lambda>x. 18 \<le> x, \<lambda>x. x \<noteq> 20]),
        mapFunc := Some (\<lambda>x. Inr (x + 1))\<rparr>) \<and>
   SliceStreamer_filter
     (demoStage\<lparr>parallel := 3, filterFunc := Some (map (\<lambda>p x. Inr (p x)) [\<lambda>x. 18 \<le> x, \<lambda>x. x \<noteq> 20]),
        mapFunc := Some (\<lambda>x. Inr (x + 1))\<rparr>)
     [15, 15, 20, 25] = Inr [25] \<and>
   SliceStreamer_map
     (demoStage\<lparr>parallel := 3, filterFunc := Some (map (\<lambda>p x. Inr (p x)) [\<lambda>x. 18 \<le> x, \<lambda>x. x \<noteq> 20]),
        mapFunc := Some (\<lambda>x. Inr (x + 1))\<rparr>)
     [15, 15, 20, 25] = Inr [16, 16, 21, 26]"
proof -
  let ?s = "demoStage\<lparr>parallel := 3, filterFunc := Some (map (\<lambda>p x. Inr (p x)) [\<lambda>x. 18 \<le> x, \<lambda>x. x \<noteq> 20]),
        mapFunc := Some (\<lambda>x. Inr (x + 1))\<rparr>"
  have p: "(1::int) \<le> parallel ?s" by simp
  from stages_without_panics [OF p, where ps = "[\<lambda>x. 18 \<le> x, \<lambda>x. x \<noteq> 20]" and g = "\<lambda>x. x + 1"
      and data = "[15, 15, 20, 25]"]
  show ?thesis using p by simp
qed

text \<open>
  A stage fails as a whole when an operation panics on some element: with a parallelism
  of at least 1, the map stage returns no result but a panic that carries at least one
  recorded panic value, and every recorded value is the panic of the mapper on some
  element of the data.
\<close>

lemma mapWorker_Inl:
  "mapWorker f xs = Inl e \<Longrightarrow> \<exists>x\<in>set xs. f x = Inl e"
  by (induction xs) (auto split: sum.splits)

lemma mapWorker_isl: "isl (mapWorker f xs) = (\<exists>x\<in>set xs. isl (f x))"
  by (induction xs) (auto split: sum.splits)

lemma set_batches: "1 \<le> k \<Longrightarrow> b \<in> set (batches k data) \<Longrightarrow> set b \<subseteq> set data"
proof -
  assume "1 \<le> k" and b: "b \<in> set (batches k data)"
  then have "concat (batches k data) = data" by (simp add: concat_batches)
  then have "set data = (\<Union>b\<in>set (batches k data). set b)"
    by (metis set_concat)
  with b show ?thesis by blast
qed

theorem map_stage_fault:
  assumes "1 \<le> parallel s" and "mapFunc s = Some f" and "x \<in> set data" and "f x = Inl e"
  shows "\<exists>es. SliceStreamer_map s data = Inl (WorkerPanic es) \<and> es \<noteq> [] \<and>
              (\<forall>e'\<in>set es. \<exists>y\<in>set data. f y = Inl e')"
proof -
  let ?rs = "map (mapWorker f) (batches (parallel s) data)"
  let ?es = "map projl (filter isl ?rs)"
  have "isl (f x)" using assms(4) by simp
  with assms(3) have "isl (mapWorker f data)"
    unfolding mapWorker_isl by blast
  then have "isl (concatSlots (forkJoin (parallel s) (mapWorker f) data))"
    using assms(1) by (simp add: forkJoin_sequential_isl sequentialWorker_map)
  then have ne: "filter isl ?rs \<noteq> []"
    using assms(1) by (auto simp: concatSlots_def forkJoin_def joinWorkers_def split: if_splits)
  then have r: "SliceStreamer_map s data = Inl (WorkerPanic ?es)"
    using assms(1,2)
    by (simp add: SliceStreamer_map_def concatSlots_def forkJoin_def joinWorkers_def)
  have "\<exists>y\<in>set data. f y = Inl e'" if "e' \<in> set ?es" for e'
  proof -
    from that obtain b where b: "b \<in> set (batches (parallel s) data)"
      and i: "isl (mapWorker f b)" and e': "e' = projl (mapWorker f b)"
      by auto
    from i e' have "mapWorker f b = Inl e'" by (cases "mapWorker f b") auto
    then obtain y where "y \<in> set b" "f y = Inl e'"
      using mapWorker_Inl by fastforce
    with set_batches [OF assms(1) b] show ?thesis by blast
  qed
  with r ne show ?thesis by auto
qed

theorem map_stage_fault_witness:
  "(1::int) \<le> parallel (demoStage\<lparr>parallel := 2, mapFunc := Some (\<lambda>x. if x = 99 then Inl ''boom'' else Inr x)\<rparr>) \<and>
   SliceStreamer_map
     (demoStage\<lparr>parallel := 2, mapFunc := Some (\<lambda>x. if x = 99 then Inl ''boom'' else Inr x)\<rparr>)
     [1, 99, 3, 4] = Inl (WorkerPanic [''boom''])"
proof -
  let ?f = "\<lambda>x :: int. if x = 99 then Inl ''boom'' else Inr x"
  let ?s = "demoStage\<lparr>parallel := 2, mapFunc := Some ?f\<rparr>"
  have p: "(1::int) \<le> parallel ?s" by simp
  have m: "mapFunc ?s = Some ?f" by simp
  have x: "(99::int) \<in> set [1, 99, 3, 4]" by simp
  have e: "?f 99 = Inl ''boom''" by simp
  from map_stage_fault [OF p m x e] obtain es where
    "SliceStreamer_map ?s [1, 99, 3, 4] = Inl (WorkerPanic es)" by blast
  moreover have "SliceStreamer_map ?s [1, 99, 3, 4] = Inl (WorkerPanic [''boom''])"
    by (simp add: SliceStreamer_map_def forkJoin_def batches_def batchBounds_def
          joinWorkers_def concatSlots_def upt_rec)
  ultimately show ?thesis using p by simp
qed

section \<open>What a scan reads from the heap\<close>

lemma isChain_append:
  "isChain parent h p sl \<Longrightarrow> isChain parent (h @ ex) p sl"
  by (induction sl arbitrary: p) (auto simp: nth_append split: option.splits)

lemma isChain_related:
  assumes "list_all2 R hs hs'" and "\<And>s s'. R s s' \<Longrightarrow> parent s' = parent s"
  shows "isChain parent hs p sl \<Longrightarrow> \<exists>sl'. isChain parent hs' p sl' \<and> list_all2 R sl sl'"
proof (induction sl arbitrary: p)
  case Nil
  then show ?case by simp
next
  case (Cons n rest)
  then obtain a where a: "p = Some a" "a < length hs" "n = hs ! a"
    "isChain parent hs (parent n) rest"
    by (auto split: option.splits)
  from Cons.IH [OF a(4)] obtain rest' where
    r: "isChain parent hs' (parent n) rest'" "list_all2 R rest rest'"
    by blast
  from assms(1) a(2) have l: "a < length hs'" and rel: "R (hs ! a) (hs' ! a)"
    by (auto simp: list_all2_conv_all_nth)
  from rel have "parent (hs' ! a) = parent (hs ! a)" by (rule assms(2))
  with a r l rel have "isChain parent hs' p (hs' ! a # rest') \<and> list_all2 R (n # rest) (hs' ! a # rest')"
    by simp
  then show ?case by blast
qed

lemma applyStage_heap: "applyStage srt h' s d = applyStage srt h s d"
proof (cases "flatMapFunc s")
  case None
  then show ?thesis by (simp add: applyStage_def split: sum.splits)
next
  case (Some f)
  then show ?thesis by (simp add: applyStage_def SliceStreamer_flatMap_def split: sum.splits)
qed

lemma stagesLoop_heap: "stagesLoop srt h' sl d = stagesLoop srt h sl d"
proof (induction sl arbitrary: d)
  case Nil
  show ?case by simp
next
  case (Cons s rest)
  show ?case
    by (simp add: applyStage_heap [of srt h' s d h] Cons.IH split: option.splits sum.splits)
qed

lemma MapStreamer_scan_append:
  assumes "MapStreamer_scan mh m = Some res"
  shows "MapStreamer_scan (mh @ ex) m = Some res"
proof -
  from assms obtain sl where sl: "streamerList mLastStreamer mh (Some m) = Some sl"
    by (auto simp: MapStreamer_scan_def split: option.splits)
  then have "isChain mLastStreamer (mh @ ex) (Some m) sl"
    by (simp add: streamerList_isChain isChain_append)
  then have "streamerList mLastStreamer (mh @ ex) (Some m) = Some sl"
    by (rule isChain_streamerList)
  with assms sl show ?thesis by (simp add: MapStreamer_scan_def)
qed

lemma getData_append:
  "getData h g = Some res \<Longrightarrow> maps h' = maps h @ ms \<Longrightarrow> getData h' g = Some res"
  by (auto simp: getData_def MapStreamer_scan_append split: option.splits DataGetter.splits)

text \<open>
  Allocating nodes does not change the evaluation of the stages that exist: when the
  heap \<open>h'\<close> extends the heap \<open>h\<close> by new nodes only (as after any call of \<^verbatim>\<open>Filter\<close>,
  \<^verbatim>\<open>Map\<close>, \<^verbatim>\<open>FlatMap\<close>, \<^verbatim>\<open>Sorted\<close>, \<^verbatim>\<open>Offset\<close>, \<^verbatim>\<open>Limit\<close>, \<^verbatim>\<open>KeysToStream\<close> or
  \<^verbatim>\<open>ValuesToStream\<close>), a scan that returns on \<open>h\<close> returns the same on \<open>h'\<close>.
\<close>

theorem scan_unchanged_by_allocation:
  assumes "SliceStreamer_scan srt h streamer = Some res"
    and "slices h' = slices h @ ss" and "maps h' = maps h @ ms"
  shows "SliceStreamer_scan srt h' streamer = Some res"
proof -
  from assms(1) obtain sl where sl: "streamerList lastStreamer (slices h) (Some streamer) = Some sl"
    by (auto simp: SliceStreamer_scan_def split: option.splits)
  then have "isChain lastStreamer (slices h') (Some streamer) sl"
    by (simp add: streamerList_isChain isChain_append assms(2))
  then have sl': "streamerList lastStreamer (slices h') (Some streamer) = Some sl"
    by (rule isChain_streamerList)
  from assms(1) sl obtain d where d: "getData h (dataGetter (last sl)) = Some d"
    by (auto simp: SliceStreamer_scan_def split: option.splits)
  then have d': "getData h' (dataGetter (last sl)) = Some d"
    using assms(3) by (rule getData_append)
  have "\<And>xs. stagesLoop srt h' (rev sl) xs = stagesLoop srt h (rev sl) xs"
    by (rule stagesLoop_heap)
  with assms(1) show ?thesis
    by (simp add: SliceStreamer_scan_def sl sl' d d' cong: sum.case_cong option.case_cong)
qed

theorem scan_unchanged_by_allocation_witness:
  "SliceStreamer_scan insertionSort (rootHeap [10, 20, 30]) 0 = Some (Inr [10, 20, 30]) \<and>
   slices offsetHeap = slices (rootHeap [10, 20, 30]) @ [childNode\<lparr>offset := 5\<rparr>] \<and>
   maps offsetHeap = maps (rootHeap [10, 20, 30]) @ [] \<and>
   SliceStreamer_scan insertionSort offsetHeap 0 = Some (Inr [10, 20, 30])"
proof -
  have a: "SliceStreamer_scan insertionSort (rootHeap [10, 20, 30]) 0 = Some (Inr [10, 20, 30])"
    by (rule scan_rootHeap)
  have b: "slices offsetHeap = slices (rootHeap [10, 20, 30]) @ [childNode\<lparr>offset := 5\<rparr>]"
    by (simp add: offsetHeap_def rootHeap_def)
  have c: "maps offsetHeap = maps (rootHeap [10, 20, 30]) @ []"
    by (simp add: offsetHeap_def rootHeap_def)
  from scan_unchanged_by_allocation [OF a b c] a b c show ?thesis by simp
qed

lemma applyStage_sameButWindow:
  "sameButWindow s s' \<Longrightarrow> applyStage srt h' s' d = applyStage srt h s d"
proof -
  assume "sameButWindow s s'"
  then have s': "s' = s\<lparr>offset := offset s', limit := limit s'\<rparr>"
    by (simp add: sameButWindow_def)
  have "SliceStreamer_filter (s\<lparr>offset := offset s', limit := limit s'\<rparr>) = SliceStreamer_filter s"
    "SliceStreamer_map (s\<lparr>offset := offset s', limit := limit s'\<rparr>) = SliceStreamer_map s"
    "SliceStreamer_flatMap h (s\<lparr>offset := offset s', limit := limit s'\<rparr>)
       = SliceStreamer_flatMap h s"
    "sortStage srt (s\<lparr>offset := offset s', limit := limit s'\<rparr>) = sortStage srt s"
    by (rule ext, simp add: SliceStreamer_filter_def SliceStreamer_flatMap_def
          SliceStreamer_map_def sortStage_def split: option.splits)+
  then have "applyStage srt h (s\<lparr>offset := offset s', limit := limit s'\<rparr>) d = applyStage srt h s d"
    by (simp add: applyStage_def cong: sum.case_cong option.case_cong if_cong)
  with s' show ?thesis by (simp add: applyStage_heap [of srt h' s' d h])
qed

lemma stagesLoop_sameButWindow:
  "list_all2 sameButWindow sl sl' \<Longrightarrow> stagesLoop srt h' sl' d = stagesLoop srt h sl d"
proof (induction sl sl' arbitrary: d rule: list_all2_induct)
  case Nil
  show ?case by simp
next
  case (Cons s sl s' sl')
  then show ?case
    by (simp add: applyStage_sameButWindow [of s s' srt h' d h] split: option.splits sum.splits)
qed

lemma sameButWindow_sym: "sameButWindow s s' \<Longrightarrow> sameButWindow s' s"
  by (cases s, cases s') (simp add: sameButWindow_def)

lemma scan_window_of_leaf_only_Some:
  assumes "list_all2 sameButWindow (slices h) (slices h')" and "maps h' = maps h"
    and "offset (slices h' ! streamer) = offset (slices h ! streamer)"
    and "limit (slices h' ! streamer) = limit (slices h ! streamer)"
    and "SliceStreamer_scan srt h streamer = Some res"
  shows "SliceStreamer_scan srt h' streamer = Some res"
proof -
  from assms(5) obtain sl where sl: "streamerList lastStreamer (slices h) (Some streamer) = Some sl"
    by (auto simp: SliceStreamer_scan_def split: option.splits)
  then have c: "isChain lastStreamer (slices h) (Some streamer) sl"
    by (rule streamerList_isChain)
  have par: "\<And>s s'. sameButWindow s s' \<Longrightarrow> lastStreamer s' = lastStreamer s"
    by (metis sameButWindow_def SliceStreamer.select_convs(1) SliceStreamer.surjective
          SliceStreamer.update_convs(8,9))
  from isChain_related [OF assms(1) par c] obtain sl' where
    c': "isChain lastStreamer (slices h') (Some streamer) sl'" and rel: "list_all2 sameButWindow sl sl'"
    by blast
  from c' have sl': "streamerList lastStreamer (slices h') (Some streamer) = Some sl'"
    by (rule isChain_streamerList)
  from c have ne: "sl \<noteq> []" and hd: "hd sl = slices h ! streamer"
    using isChain_hd by blast+
  from c' have ne': "sl' \<noteq> []" and hd': "hd sl' = slices h' ! streamer"
    using isChain_hd by blast+
  from rel ne ne' have "sameButWindow (last sl) (last sl')"
    by (simp add: last_conv_nth list_all2_conv_all_nth)
  then have dg: "dataGetter (last sl') = dataGetter (last sl)"
    by (metis sameButWindow_def SliceStreamer.select_convs(2) SliceStreamer.surjective
          SliceStreamer.update_convs(8,9))
  have gd: "getData h' g = getData h g" for g
    by (simp add: getData_def assms(2) split: option.splits DataGetter.splits)
  from rel have "list_all2 sameButWindow (rev sl) (rev sl')" by simp
  then have loop: "\<And>d. stagesLoop srt h' (rev sl') d = stagesLoop srt h (rev sl) d"
    by (rule stagesLoop_sameButWindow)
  from assms(5) show ?thesis
    by (simp add: SliceStreamer_scan_def sl sl' dg gd loop hd hd' assms(3,4)
          cong: sum.case_cong option.case_cong)
qed

text \<open>
  The offset and limit of the stages other than the leaf have no effect: two heaps whose
  SliceStreamer nodes differ at most in offset and limit, and agree on both at the leaf,
  give the same scan of the leaf.
\<close>

theorem scan_window_of_leaf_only:
  assumes "list_all2 sameButWindow (slices h) (slices h')" and "maps h' = maps h"
    and "offset (slices h' ! streamer) = offset (slices h ! streamer)"
    and "limit (slices h' ! streamer) = limit (slices h ! streamer)"
  shows "SliceStreamer_scan srt h' streamer = SliceStreamer_scan srt h streamer"
proof (cases "SliceStreamer_scan srt h streamer")
  case (Some res)
  with scan_window_of_leaf_only_Some [OF assms] show ?thesis by simp
next
  case None
  have rev: "list_all2 sameButWindow (slices h') (slices h)"
    using assms(1) by (auto simp: list_all2_conv_all_nth sameButWindow_sym)
  show ?thesis
  proof (cases "SliceStreamer_scan srt h' streamer")
    case None': None
    with None show ?thesis by simp
  next
    case (Some res)
    from scan_window_of_leaf_only_Some [OF rev assms(2) [symmetric] assms(3) [symmetric]
        assms(4) [symmetric] Some] None
    show ?thesis by simp
  qed
qed


theorem scan_window_of_leaf_only_witness:
  "list_all2 sameButWindow
     [rootNode [10, 20, 30], childNode\<lparr>offset := 2\<rparr>, childNode\<lparr>lastStreamer := Some 1, offset := 1\<rparr>]
     [rootNode [10, 20, 30], childNode\<lparr>limit := 1\<rparr>, childNode\<lparr>lastStreamer := Some 1, offset := 1\<rparr>] \<and>
   SliceStreamer_scan insertionSort
     \<lparr>slices = [rootNode [10, 20, 30], childNode\<lparr>offset := 2\<rparr>,
                childNode\<lparr>lastStreamer := Some 1, offset := 1\<rparr>], maps = []\<rparr> 2
     = Some (Inr [20, 30]) \<and>
   SliceStreamer_scan insertionSort
     \<lparr>slices = [rootNode [10, 20, 30], childNode\<lparr>limit := 1\<rparr>,
                childNode\<lparr>lastStreamer := Some 1, offset := 1\<rparr>], maps = []\<rparr> 2
     = Some (Inr [20, 30])"
proof -
  let ?h = "\<lparr>slices = [rootNode [10, 20, 30], childNode\<lparr>offset := 2\<rparr>,
                childNode\<lparr>lastStreamer := Some 1, offset := 1\<rparr>], maps = []\<rparr> :: (int, string) heap"
  let ?h' = "\<lparr>slices = [rootNode [10, 20, 30], childNode\<lparr>limit := 1\<rparr>,
                childNode\<lparr>lastStreamer := Some 1, offset := 1\<rparr>], maps = []\<rparr> :: (int, string) heap"
  have r: "list_all2 sameButWindow (slices ?h) (slices ?h')"
    by (simp add: sameButWindow_def childNode_def rootNode_def)
  have s: "SliceStreamer_scan insertionSort ?h 2 = Some (Inr [20, 30])"
    by (simp add: SliceStreamer_scan_def streamerList.simps rootNode_def childNode_def
          getData_def applyStage_def sortStage_def window_def)
  have "SliceStreamer_scan insertionSort ?h' 2 = SliceStreamer_scan insertionSort ?h 2"
    by (rule scan_window_of_leaf_only [OF r]) simp_all
  with r s show ?thesis by simp
qed

section \<open>Parallelism does not show in a scan\<close>

lemma outcome_eq_iff: "(outcome x = outcome y) = (\<forall>r. (x = Inr r) = (y = Inr r))"
  by (cases x; cases y) auto














section \<open>Parallelism does not show in the results\<close>




end
